theory Spec2Isabelle
  imports Complex_Main "HOL-Library.Word"
begin

section \<open>Values of the platform\<close>

text \<open>
  The upload helper (\<^verbatim>\<open>src/core/helpers/upload.ts\<close>) is asynchronous, event-driven
  TypeScript. Its embedding makes three things explicit: the values that cross the
  boundary of the helper (bytes, parsed JSON, errors), the environment it talks to
  (file system, platform API, upload server), and the observable effects of one call
  (network calls, timer, stream gating) together with the state in which the returned
  promise is left.
\<close>

type_synonym byte = "8 word"
type_synonym bytes = "byte list"

text \<open>
  A JavaScript \<^verbatim>\<open>number\<close>. Only integer-valued sizes and offsets, the timeout and the
  zero test of a parsed number are used by the code; rounding of IEEE doubles and
  \<^verbatim>\<open>NaN\<close> are outside the model.
\<close>

type_synonym number = real

text \<open>The value of \<^verbatim>\<open>await res.json()\<close>: a parsed JSON document.\<close>

datatype json =
    JNull
  | JBool bool
  | JNum number
  | JStr string
  | JArr "json list"
  | JObj "(string \<times> json) list"

text \<open>
  JavaScript truthiness, as tested by \<^verbatim>\<open>!uploadData\<close>: \<^verbatim>\<open>null\<close>, \<^verbatim>\<open>false\<close>, \<^verbatim>\<open>0\<close>
  and the empty string are falsy; every array and object is truthy.
\<close>

fun truthy :: "json \<Rightarrow> bool" where
  "truthy JNull = False"
| "truthy (JBool b) = b"
| "truthy (JNum x) = (x \<noteq> 0)"
| "truthy (JStr s) = (s \<noteq> [])"
| "truthy (JArr xs) = True"
| "truthy (JObj kvs) = True"

text \<open>
  Everything that can be thrown or passed to \<^verbatim>\<open>reject\<close>. \<open>Error\<close> is the plain
  \<^verbatim>\<open>new Error(message)\<close>; \<open>MaxError\<close> is \<^verbatim>\<open>new MaxError(status, body)\<close>; the others
  originate in the platform: an aborted \<^verbatim>\<open>fetch\<close>, a failed \<^verbatim>\<open>fetch\<close>, a body that is
  not JSON, a failing \<^verbatim>\<open>fs.promises.stat\<close>, a failing \<^verbatim>\<open>getUploadUrl\<close>, and a stream's
  own \<^verbatim>\<open>'error'\<close> event.
\<close>

datatype error =
    Error string
  | MaxError nat json
  | AbortError
  | FetchFailed string
  | JsonSyntaxError
  | FsError string
  | ApiError string
  | StreamFailure string

subsection \<open>Decimal rendering of numbers in template strings\<close>

definition digit_char :: "nat \<Rightarrow> char" where
  "digit_char d = char_of (48 + d)"

fun show_nat :: "nat \<Rightarrow> string" where
  "show_nat n = (if n < 10 then [digit_char n] else show_nat (n div 10) @ [digit_char (n mod 10)])"

declare show_nat.simps [simp del]

text \<open>\<^verbatim>\<open>`${i}`\<close> for an integer-valued number \<open>i\<close>.\<close>

definition show_int :: "int \<Rightarrow> string" where
  "show_int i = (if i < 0 then CHR ''-'' # show_nat (nat (- i)) else show_nat (nat i))"

section \<open>Data model\<close>

text \<open>\<^verbatim>\<open>source.path\<close> of an \<^verbatim>\<open>fs.ReadStream\<close> is a string or a \<^verbatim>\<open>Buffer\<close>.\<close>

datatype path_ref = PathStr string | PathBuf bytes

text \<open>
  How a stream stops delivering: with \<^verbatim>\<open>'end'\<close>; with \<^verbatim>\<open>'error'\<close> for a failed read, which
  the listeners of the helper hear; or, for a stream that cannot be opened, with an
  \<^verbatim>\<open>'error'\<close> that is emitted before the helper has attached its listeners (the file is
  opened when the stream is created, the listeners are attached only after the upload
  URL has arrived).
\<close>

datatype stream_end = StreamEnd | StreamError error | StreamOpenError error

text \<open>
  An \<^verbatim>\<open>fs.ReadStream\<close>, seen from its consumer: the path it reads, the chunks it hands
  to a \<^verbatim>\<open>'data'\<close> listener while it is flowing, the event that follows the last chunk,
  and when that event comes. A paused stream delivers no chunk, but it goes on reading
  ahead into its buffer. If it has met the end of the file (or the failure) by the time
  it hands out the last chunk, it emits \<^verbatim>\<open>'end'\<close> in the tick after that \<^verbatim>\<open>'data'\<close>, paused
  or not: \<open>rs_eager\<close>. Such is a file of several chunks whose last chunk is shorter than
  the buffer, read from a disk that is faster than the network. Otherwise the stream
  learns of the end only by a read it starts when it flows again: a file of a single
  chunk, or one whose size is a multiple of the buffer size.

  For a stream that fails, the \<^verbatim>\<open>'error'\<close> is placed in the same way after the last chunk
  that the listener receives. A failure that reading ahead meets while the listener of
  an earlier chunk has thrown, and that the \<^verbatim>\<open>'error'\<close> listener would still hear, is
  outside the model.

  Chunks are \<^verbatim>\<open>Buffer\<close>s, so \<^verbatim>\<open>chunk.length\<close> is the number of bytes:
  \<^verbatim>\<open>fs.createReadStream(source)\<close> sets no encoding. A stream handed in by the caller with
  an encoding set, which would deliver strings, is outside the model.
\<close>

record read_stream =
  rs_path :: path_ref
  rs_chunks :: "bytes list"
  rs_end :: stream_end
  rs_eager :: bool

text \<open>\<^verbatim>\<open>type FileSource = string | fs.ReadStream | Buffer\<close>\<close>

datatype file_source =
    SrcPath string
  | SrcStream read_stream
  | SrcBuffer bytes

text \<open>\<^verbatim>\<open>type UploadFile = FileStream | FileBuffer\<close>, told apart by \<^verbatim>\<open>'stream' in file\<close>.\<close>

record file_stream =
  stream :: read_stream
  fileName :: string
  contentLength :: int

record file_buffer =
  buffer :: bytes
  bufferName :: string

datatype upload_file = FileStream file_stream | FileBuffer file_buffer

text \<open>The media kinds this helper passes to \<^verbatim>\<open>getUploadUrl\<close>.\<close>

datatype upload_type = Image | Video | File | Audio

section \<open>Environment and observable behaviour\<close>

text \<open>\<^verbatim>\<open>fs.Stats\<close>, as far as it is read: \<^verbatim>\<open>stat.isFile()\<close> and \<^verbatim>\<open>stat.size\<close>.\<close>

record stats =
  isFile :: bool
  st_size :: int

text \<open>A \<^verbatim>\<open>Response\<close>: its status code, and its body parsed as JSON (\<open>None\<close> when
  \<^verbatim>\<open>res.json()\<close> rejects because the body is not JSON).\<close>

record response =
  status :: nat
  body :: "json option"

text \<open>How the promise of one \<^verbatim>\<open>fetch\<close> settles: fulfilled with a response, or rejected
  (no connection, or the signal it was given has been aborted).\<close>

datatype fetch_reply = Responded response | FetchRejected error

text \<open>One part of a \<^verbatim>\<open>FormData\<close>: field name, content and file name.\<close>

record form_part =
  part_name :: string
  part_data :: bytes
  part_filename :: string

datatype request_body = RawBody bytes | FormBody "form_part list"

datatype abort_signal = AbortSignal

text \<open>The arguments of a \<^verbatim>\<open>fetch\<close> call.\<close>

record request =
  req_url :: string
  req_method :: string
  req_body :: request_body
  req_headers :: "(string \<times> string) list"
  req_signal :: "abort_signal option"

text \<open>
  The world one call runs in. \<open>fs_stat\<close> answers \<^verbatim>\<open>fs.promises.stat\<close>; \<open>fs_read p\<close> is
  what the stream opened by \<^verbatim>\<open>fs.createReadStream(p)\<close> delivers (its chunks, its last event
  and whether that event is eager); \<open>randomUUID\<close> is the value
  of the call \<^verbatim>\<open>randomUUID()\<close>; \<open>getUploadUrl\<close> answers \<^verbatim>\<open>api.raw.uploads.getUploadUrl\<close>;
  \<open>fetch i req\<close> is how the \<open>i\<close>-th \<^verbatim>\<open>fetch\<close> of the call (counted from 0) settles when it
  is given \<open>req\<close>. A reply \<open>FetchRejected AbortError\<close> stands for the deadline timer firing
  \<^verbatim>\<open>uploadController.abort()\<close> before that request has completed; wall-clock time itself
  is not modelled.
\<close>

record env =
  fs_stat :: "path_ref \<Rightarrow> error + stats"
  fs_read :: "string \<Rightarrow> bytes list \<times> stream_end \<times> bool"
  randomUUID :: string
  getUploadUrl :: "upload_type \<Rightarrow> error + string"
  fetch :: "nat \<Rightarrow> request \<Rightarrow> fetch_reply"

text \<open>
  What one call does to the outside, in program order: the platform API call, arming and
  clearing the deadline timer, pausing and resuming the stream, issuing a request, the
  settling of that request, and the settling of the promise of the transfer
  (\<^verbatim>\<open>resolve\<close> and \<^verbatim>\<open>reject\<close> of lines 159, 162 and 165; the return or the exception of
  \<^verbatim>\<open>uploadFromBuffer\<close>).
\<close>

datatype effect =
    EvGetUploadUrl upload_type
  | EvSetTimeout number
  | EvClearTimeout
  | EvPause
  | EvFetch request
  | EvSettled fetch_reply
  | EvResume
  | EvResolve json
  | EvReject error

text \<open>The state in which the promise returned by a call is left.\<close>

datatype outcome = Resolved json | Rejected error | Pending

text \<open>
  The behaviour of a call: its effects, the errors thrown where nothing catches them
  (rejections of the promise of an \<^verbatim>\<open>async\<close> event listener, which the emitter drops),
  and the final state of the returned promise.
\<close>

record run =
  effects :: "effect list"
  unhandled :: "error list"
  outcome :: outcome

definition prepend :: "effect list \<Rightarrow> run \<Rightarrow> run" where
  "prepend es r = r\<lparr>effects := es @ effects r\<rparr>"

definition requests :: "run \<Rightarrow> request list" where
  "requests r = concat (map (\<lambda>e. case e of EvFetch q \<Rightarrow> [q] | _ \<Rightarrow> []) (effects r))"

definition network_calls :: "run \<Rightarrow> effect list" where
  "network_calls r =
     filter (\<lambda>e. case e of EvFetch q \<Rightarrow> True | EvGetUploadUrl t \<Rightarrow> True | _ \<Rightarrow> False) (effects r)"

section \<open>Source normalisation: \<^verbatim>\<open>getStreamFromSource\<close>\<close>

text \<open>
  \<^verbatim>\<open>path.basename\<close> of Node (POSIX flavour): trailing slashes are dropped, then the text
  after the last remaining slash is returned.
\<close>

definition basename :: "string \<Rightarrow> string" where
  "basename p =
     rev (takeWhile (\<lambda>c. c \<noteq> CHR ''/'') (dropWhile (\<lambda>c. c = CHR ''/'') (rev p)))"

definition createReadStream :: "env \<Rightarrow> string \<Rightarrow> read_stream" where
  "createReadStream e p =
     (case fs_read e p of
        (chunks, last_event, eager) \<Rightarrow>
          \<lparr>rs_path = PathStr p, rs_chunks = chunks, rs_end = last_event, rs_eager = eager\<rparr>)"

definition getStreamFromSource :: "env \<Rightarrow> file_source \<Rightarrow> error + upload_file" where
  "getStreamFromSource e source =
     (case source of
        SrcPath p \<Rightarrow>
          (case fs_stat e (PathStr p) of
             Inl err \<Rightarrow> Inl err
           | Inr stat \<Rightarrow>
               let name = basename p in
               if \<not> isFile stat
               then Inl (Error (''Failed to upload '' @ name @ ''. Not a file''))
               else Inr (FileStream
                 \<lparr>stream = createReadStream e p, fileName = name,
                  contentLength = st_size stat\<rparr>))
      | SrcBuffer b \<Rightarrow> Inr (FileBuffer \<lparr>buffer = b, bufferName = randomUUID e\<rparr>)
      | SrcStream s \<Rightarrow>
          (case fs_stat e (rs_path s) of
             Inl err \<Rightarrow> Inl err
           | Inr stat \<Rightarrow>
               let name = (case rs_path s of
                             PathStr p \<Rightarrow> basename p
                           | PathBuf b \<Rightarrow> randomUUID e)
               in Inr (FileStream
                 \<lparr>stream = s, fileName = name, contentLength = st_size stat\<rparr>)))"

section \<open>Chunked stream transfer: \<^verbatim>\<open>uploadFromStream\<close>\<close>

text \<open>The variables shared by the listeners: \<^verbatim>\<open>prevChunk\<close> and \<^verbatim>\<open>uploadData\<close>.\<close>

record stream_vars =
  prevChunk :: int
  uploadData :: json

text \<open>The request built by the \<^verbatim>\<open>'data'\<close> listener for one chunk (lines 131 to 142).\<close>

definition chunk_request ::
  "file_stream \<Rightarrow> string \<Rightarrow> abort_signal option \<Rightarrow> int \<Rightarrow> bytes \<Rightarrow> request" where
  "chunk_request file uploadUrl abortController prev chunk =
     (let startBite = prev + 1;
          endBite = prev + int (length chunk)
      in \<lparr>req_url = uploadUrl,
          req_method = ''POST'',
          req_body = RawBody chunk,
          req_headers =
            [(''Content-Disposition'', ''attachment; filename=\"'' @ fileName file @ ''\"''),
             (''Content-Range'',
                ''bytes '' @ show_int startBite @ ''-'' @ show_int endBite @ ''/''
                  @ show_int (contentLength file))],
          req_signal = abortController\<rparr>)"

text \<open>
  The rest of the \<^verbatim>\<open>'data'\<close> listener, after \<^verbatim>\<open>await fetch(...)\<close> (lines 144 to 155):
  \<open>Inl\<close> is an exception leaving the listener, \<open>Inr\<close> the variables after a completed
  run of the listener, which has then resumed the stream.
\<close>

definition after_fetch :: "stream_vars \<Rightarrow> bytes \<Rightarrow> fetch_reply \<Rightarrow> error + stream_vars" where
  "after_fetch v chunk reply =
     (case reply of
        FetchRejected err \<Rightarrow> Inl err
      | Responded uploadRes \<Rightarrow>
          if status uploadRes \<ge> 400 then
            (case body uploadRes of
               None \<Rightarrow> Inl JsonSyntaxError
             | Some err \<Rightarrow> Inl (MaxError (status uploadRes) err))
          else if \<not> truthy (uploadData v) then
            (case body uploadRes of
               None \<Rightarrow> Inl JsonSyntaxError
             | Some d \<Rightarrow>
                 Inr \<lparr>prevChunk = prevChunk v + int (length chunk), uploadData = d\<rparr>)
          else Inr (v\<lparr>prevChunk := prevChunk v + int (length chunk)\<rparr>))"

text \<open>The \<^verbatim>\<open>'end'\<close> listener (lines 157 to 163) and the \<^verbatim>\<open>'error'\<close> listener (164 to 166).\<close>

definition on_end :: "stream_vars \<Rightarrow> outcome" where
  "on_end v =
     (if \<not> truthy (uploadData v) then Rejected (Error ''Failed to upload'')
      else Resolved (uploadData v))"

definition on_error :: "error \<Rightarrow> outcome" where
  "on_error err = Rejected err"

text \<open>
  What the last event of the stream does to the promise, given the variables at that
  moment. An error of opening is heard by no listener of the helper.
\<close>

definition last_event :: "file_stream \<Rightarrow> stream_vars \<Rightarrow> outcome" where
  "last_event file v =
     (case rs_end (stream file) of
        StreamEnd \<Rightarrow> on_end v
      | StreamError err \<Rightarrow> on_error err
      | StreamOpenError err \<Rightarrow> Pending)"

text \<open>The call of \<^verbatim>\<open>resolve\<close> or \<^verbatim>\<open>reject\<close> that settles the promise, as an effect.\<close>

definition settling :: "outcome \<Rightarrow> effect list" where
  "settling out =
     (case out of Resolved d \<Rightarrow> [EvResolve d] | Rejected err \<Rightarrow> [EvReject err] | Pending \<Rightarrow> [])"

text \<open>
  The life of the promise created at line 124. The stream starts flowing when the
  \<^verbatim>\<open>'data'\<close> listener is attached. For each chunk, the listener pauses the stream, issues
  one request and awaits it. The listener is an \<^verbatim>\<open>async\<close> function called by an event
  emitter: an exception leaving it rejects the listener's own promise, which nobody
  holds (the stream is created without \<^verbatim>\<open>captureRejections\<close>, Node's default);
  \<^verbatim>\<open>reject\<close> of the outer promise is not called, \<^verbatim>\<open>resume\<close> is not reached, so the
  stream stays paused and no further chunk is delivered. Otherwise the listener resumes
  the stream, and the next chunk, or the last event of the stream, is delivered.

  The last event of an eager stream does not wait for that: it comes while the request
  of the last chunk is in flight (\<^verbatim>\<open>'end'\<close> in the tick after the last \<^verbatim>\<open>'data'\<close>), when the
  listener of that chunk has paused the stream and issued its request, and before the
  request settles. The \<^verbatim>\<open>'end'\<close> listener then settles the promise
  with what \<^verbatim>\<open>uploadData\<close> holds from the earlier responses; whatever the listener of the
  last chunk does with its response comes too late for the promise, and an exception
  leaving it is again caught by nobody.

  The argument \<open>i\<close> counts the requests issued so far.
\<close>

fun deliver ::
  "(nat \<Rightarrow> request \<Rightarrow> fetch_reply) \<Rightarrow> file_stream \<Rightarrow> string \<Rightarrow> abort_signal option \<Rightarrow>
   nat \<Rightarrow> stream_vars \<Rightarrow> bytes list \<Rightarrow> run" where
  "deliver fch file uploadUrl abortController i v [] =
     \<lparr>effects = settling (last_event file v), unhandled = [],
      outcome = last_event file v\<rparr>"
| "deliver fch file uploadUrl abortController i v (chunk # rest) =
     (let req = chunk_request file uploadUrl abortController (prevChunk v) chunk;
          reply = fch i req
      in if rest = [] \<and> rs_eager (stream file) then
           (let out = last_event file v
            in case after_fetch v chunk reply of
                 Inl err \<Rightarrow>
                   \<lparr>effects = [EvPause, EvFetch req] @ settling out @ [EvSettled reply],
                    unhandled = [err], outcome = out\<rparr>
               | Inr v' \<Rightarrow>
                   \<lparr>effects = [EvPause, EvFetch req] @ settling out
                      @ [EvSettled reply, EvResume],
                    unhandled = [], outcome = out\<rparr>)
         else
           (case after_fetch v chunk reply of
              Inl err \<Rightarrow>
                \<lparr>effects = [EvPause, EvFetch req, EvSettled reply], unhandled = [err],
                 outcome = Pending\<rparr>
            | Inr v' \<Rightarrow>
                prepend [EvPause, EvFetch req, EvSettled reply, EvResume]
                  (deliver fch file uploadUrl abortController (Suc i) v' rest)))"

text \<open>
  A stream that could not be opened has emitted its \<^verbatim>\<open>'error'\<close> before the listeners are
  attached: nothing is delivered and the promise is never settled.
\<close>

definition uploadFromStream ::
  "(nat \<Rightarrow> request \<Rightarrow> fetch_reply) \<Rightarrow> file_stream \<Rightarrow> string \<Rightarrow> abort_signal option \<Rightarrow> run" where
  "uploadFromStream fch file uploadUrl abortController =
     (case rs_end (stream file) of
        StreamOpenError err \<Rightarrow> \<lparr>effects = [], unhandled = [err], outcome = Pending\<rparr>
      | _ \<Rightarrow>
          deliver fch file uploadUrl abortController 0 \<lparr>prevChunk = - 1, uploadData = JNull\<rparr>
            (rs_chunks (stream file)))"

section \<open>Buffer transfer: \<^verbatim>\<open>uploadFromBuffer\<close>\<close>

definition buffer_request :: "file_buffer \<Rightarrow> string \<Rightarrow> abort_signal option \<Rightarrow> request" where
  "buffer_request file uploadUrl abortController =
     \<lparr>req_url = uploadUrl,
      req_method = ''POST'',
      req_body = FormBody
        [\<lparr>part_name = ''data'', part_data = buffer file, part_filename = bufferName file\<rparr>],
      req_headers = [],
      req_signal = abortController\<rparr>"

text \<open>
  Here the awaits are in the \<^verbatim>\<open>async\<close> function itself, so a rejected \<^verbatim>\<open>fetch\<close> or a body
  that is not JSON rejects the returned promise. The status is never read.
\<close>

definition uploadFromBuffer ::
  "(nat \<Rightarrow> request \<Rightarrow> fetch_reply) \<Rightarrow> file_buffer \<Rightarrow> string \<Rightarrow> abort_signal option \<Rightarrow> run" where
  "uploadFromBuffer fch file uploadUrl abortController =
     (let req = buffer_request file uploadUrl abortController;
          reply = fch 0 req;
          out = (case reply of
                   FetchRejected err \<Rightarrow> Rejected err
                 | Responded res \<Rightarrow>
                     (case body res of
                        None \<Rightarrow> Rejected JsonSyntaxError
                      | Some d \<Rightarrow> Resolved d))
      in \<lparr>effects = [EvFetch req, EvSettled reply] @ settling out, unhandled = [],
          outcome = out\<rparr>)"

section \<open>Upload session: \<^verbatim>\<open>upload\<close>\<close>

definition DEFAULT_UPLOAD_TIMEOUT :: number where
  "DEFAULT_UPLOAD_TIMEOUT = 20000"

text \<open>\<^verbatim>\<open>type DefaultOptions = { timeout?: number }\<close>\<close>

record default_options =
  timeout :: "number option"

text \<open>\<^verbatim>\<open>options?.timeout || DEFAULT_UPLOAD_TIMEOUT\<close>: an absent and a zero timeout are both
  falsy, and give the default.\<close>

definition upload_delay :: "default_options option \<Rightarrow> number" where
  "upload_delay options =
     (case (case options of None \<Rightarrow> None | Some opts \<Rightarrow> timeout opts) of
        None \<Rightarrow> DEFAULT_UPLOAD_TIMEOUT
      | Some t \<Rightarrow> if t = 0 then DEFAULT_UPLOAD_TIMEOUT else t)"

text \<open>
  The timer is armed after the upload URL has arrived and is cleared in \<^verbatim>\<open>finally\<close>,
  that is, as soon as the awaited transfer promise settles, before anything the
  transfer still does afterwards; a transfer promise that stays pending never reaches
  \<^verbatim>\<open>finally\<close>.
\<close>

fun with_finally :: "effect list \<Rightarrow> effect list" where
  "with_finally [] = []"
| "with_finally (EvResolve d # es) = EvResolve d # EvClearTimeout # es"
| "with_finally (EvReject err # es) = EvReject err # EvClearTimeout # es"
| "with_finally (e # es) = e # with_finally es"

definition upload :: "env \<Rightarrow> upload_type \<Rightarrow> upload_file \<Rightarrow> default_options option \<Rightarrow> run" where
  "upload e type file options =
     (case getUploadUrl e type of
        Inl err \<Rightarrow> \<lparr>effects = [EvGetUploadUrl type], unhandled = [], outcome = Rejected err\<rparr>
      | Inr uploadUrl \<Rightarrow>
          let r = (case file of
                     FileStream f \<Rightarrow> uploadFromStream (fetch e) f uploadUrl (Some AbortSignal)
                   | FileBuffer f \<Rightarrow> uploadFromBuffer (fetch e) f uploadUrl (Some AbortSignal))
          in \<lparr>effects = [EvGetUploadUrl type, EvSetTimeout (upload_delay options)]
                 @ with_finally (effects r),
              unhandled = unhandled r,
              outcome = outcome r\<rparr>)"

section \<open>Public entry points\<close>

text \<open>\<^verbatim>\<open>UploadFromUrlOrSourceOptions\<close>, told apart by \<^verbatim>\<open>'url' in source\<close>.\<close>

datatype url_or_source = FromUrl string | FromSource file_source

definition no_effects :: "outcome \<Rightarrow> run" where
  "no_effects out = \<lparr>effects = [], unhandled = [], outcome = out\<rparr>"

definition image :: "env \<Rightarrow> url_or_source \<Rightarrow> number option \<Rightarrow> run" where
  "image e source tmo =
     (case source of
        FromUrl url \<Rightarrow> no_effects (Resolved (JObj [(''url'', JStr url)]))
      | FromSource src \<Rightarrow>
          (case getStreamFromSource e src of
             Inl err \<Rightarrow> no_effects (Rejected err)
           | Inr fileBlob \<Rightarrow> upload e Image fileBlob (Some \<lparr>timeout = tmo\<rparr>)))"

definition video :: "env \<Rightarrow> file_source \<Rightarrow> number option \<Rightarrow> run" where
  "video e source tmo =
     (case getStreamFromSource e source of
        Inl err \<Rightarrow> no_effects (Rejected err)
      | Inr fileBlob \<Rightarrow> upload e Video fileBlob (Some \<lparr>timeout = tmo\<rparr>))"

definition file' :: "env \<Rightarrow> file_source \<Rightarrow> number option \<Rightarrow> run" where
  "file' e source tmo =
     (case getStreamFromSource e source of
        Inl err \<Rightarrow> no_effects (Rejected err)
      | Inr fileBlob \<Rightarrow> upload e File fileBlob (Some \<lparr>timeout = tmo\<rparr>))"

definition audio :: "env \<Rightarrow> file_source \<Rightarrow> number option \<Rightarrow> run" where
  "audio e source tmo =
     (case getStreamFromSource e source of
        Inl err \<Rightarrow> no_effects (Rejected err)
      | Inr fileBlob \<Rightarrow> upload e Audio fileBlob (Some \<lparr>timeout = tmo\<rparr>))"

section \<open>The event loop behind \<^verbatim>\<open>uploadFromStream\<close>\<close>

text \<open>
  \<open>deliver\<close> runs the \<^verbatim>\<open>'data'\<close> listener to completion for one chunk before the next chunk
  arrives, and places the last event of an eager stream between the request of the last
  chunk and its settling. That the event-driven code behaves so is derived below from
  a step relation in which each event is a step of its own, and in which nothing but the
  flowing flag of the stream keeps a chunk from being delivered while a request is in
  flight.

  A state of the loop: whether the stream is flowing, the chunks it has not delivered
  yet, whether its last event has been emitted, whether that event is due in the next
  tick, the runs of the \<^verbatim>\<open>'data'\<close> listener suspended at \<^verbatim>\<open>await fetch(...)\<close> (each with its
  chunk, the number of its request and the request), the number of requests issued, the
  shared variables, and what has been observed so far.
\<close>

record loop =
  flowing :: bool
  waiting :: "bytes list"
  finished :: bool
  due :: bool
  in_flight :: "(bytes \<times> nat \<times> request) list"
  issued :: nat
  vars :: stream_vars
  seen :: run

text \<open>
  The state once the three listeners are attached: attaching the \<^verbatim>\<open>'data'\<close> listener
  switches the stream into flowing mode. A stream that could not be opened has emitted
  its error by then, and will emit nothing more.
\<close>

definition start :: "file_stream \<Rightarrow> loop" where
  "start file =
     (case rs_end (stream file) of
        StreamOpenError err \<Rightarrow>
          \<lparr>flowing = False, waiting = [], finished = True, due = False, in_flight = [],
           issued = 0, vars = \<lparr>prevChunk = - 1, uploadData = JNull\<rparr>,
           seen = \<lparr>effects = [], unhandled = [err], outcome = Pending\<rparr>\<rparr>
      | _ \<Rightarrow>
          \<lparr>flowing = True, waiting = rs_chunks (stream file), finished = False, due = False,
           in_flight = [], issued = 0, vars = \<lparr>prevChunk = - 1, uploadData = JNull\<rparr>,
           seen = \<lparr>effects = [], unhandled = [], outcome = Pending\<rparr>\<rparr>)"

text \<open>\<^verbatim>\<open>resolve\<close> and \<^verbatim>\<open>reject\<close> act on a pending promise only.\<close>

definition settle :: "outcome \<Rightarrow> run \<Rightarrow> run" where
  "settle out r =
     (if outcome r = Pending then r\<lparr>effects := effects r @ settling out, outcome := out\<rparr>
      else r)"

text \<open>
  The \<^verbatim>\<open>'data'\<close> listener up to its first \<^verbatim>\<open>await\<close> (lines 129 to 142): it pauses the stream,
  reads \<^verbatim>\<open>prevChunk\<close> and issues the request. An eager stream that has just handed out its
  last chunk has its last event due.
\<close>

definition listener_starts ::
  "file_stream \<Rightarrow> string \<Rightarrow> abort_signal option \<Rightarrow> loop \<Rightarrow> bytes \<Rightarrow> bytes list \<Rightarrow> loop" where
  "listener_starts file uploadUrl abortController s chunk rest =
     (let req = chunk_request file uploadUrl abortController (prevChunk (vars s)) chunk
      in s\<lparr>flowing := False, waiting := rest,
           due := (rest = [] \<and> rs_eager (stream file)),
           in_flight := in_flight s @ [(chunk, issued s, req)],
           issued := Suc (issued s),
           seen := (seen s)\<lparr>effects := effects (seen s) @ [EvPause, EvFetch req]\<rparr>\<rparr>)"

text \<open>
  The \<^verbatim>\<open>'data'\<close> listener from the settling of its request on (lines 144 to 155): either
  an exception leaves it, which nothing catches, or it resumes the stream.
\<close>

definition listener_continues ::
  "(nat \<Rightarrow> request \<Rightarrow> fetch_reply) \<Rightarrow> loop \<Rightarrow> (bytes \<times> nat \<times> request) list \<Rightarrow>
   bytes \<Rightarrow> nat \<Rightarrow> request \<Rightarrow> loop" where
  "listener_continues fch s others chunk i req =
     (let reply = fch i req
      in case after_fetch (vars s) chunk reply of
           Inl err \<Rightarrow>
             s\<lparr>in_flight := others,
               seen := (seen s)\<lparr>effects := effects (seen s) @ [EvSettled reply],
                                unhandled := unhandled (seen s) @ [err]\<rparr>\<rparr>
         | Inr v' \<Rightarrow>
             s\<lparr>in_flight := others, vars := v', flowing := True,
               seen := (seen s)\<lparr>effects := effects (seen s) @ [EvSettled reply, EvResume]\<rparr>\<rparr>)"

text \<open>The \<^verbatim>\<open>'end'\<close> listener, or the \<^verbatim>\<open>'error'\<close> listener, runs.\<close>

definition stream_finishes :: "file_stream \<Rightarrow> loop \<Rightarrow> loop" where
  "stream_finishes file s =
     s\<lparr>finished := True, due := False,
       seen := settle (last_event file (vars s)) (seen s)\<rparr>"

text \<open>
  One event. A flowing stream delivers its next chunk; a paused stream delivers none.
  The last event comes when no chunk is left and the stream is flowing, or when it is
  due, whether the stream is paused or not. A request in flight settles, but not before
  an event that is due: what is scheduled for the next tick runs before the callbacks of
  the network.
\<close>

inductive step ::
  "(nat \<Rightarrow> request \<Rightarrow> fetch_reply) \<Rightarrow> file_stream \<Rightarrow> string \<Rightarrow> abort_signal option \<Rightarrow>
   loop \<Rightarrow> loop \<Rightarrow> bool"
  for fch upfile uploadUrl abortController where
  data_event:
    "flowing s \<Longrightarrow> waiting s = chunk # rest \<Longrightarrow>
     step fch upfile uploadUrl abortController s
       (listener_starts upfile uploadUrl abortController s chunk rest)"
| fetch_settled:
    "in_flight s = before @ (chunk, i, req) # later \<Longrightarrow> \<not> due s \<Longrightarrow>
     step fch upfile uploadUrl abortController s
       (listener_continues fch s (before @ later) chunk i req)"
| end_event:
    "flowing s \<or> due s \<Longrightarrow> waiting s = [] \<Longrightarrow> \<not> finished s \<Longrightarrow>
     step fch upfile uploadUrl abortController s (stream_finishes upfile s)"

text \<open>At most one request is in flight, and while it is, the stream is paused.\<close>

definition gated :: "loop \<Rightarrow> bool" where
  "gated s \<longleftrightarrow> length (in_flight s) \<le> 1 \<and> (in_flight s \<noteq> [] \<longrightarrow> \<not> flowing s)"

text \<open>What has been observed, followed by a further run.\<close>

definition then_run :: "run \<Rightarrow> run \<Rightarrow> run" where
  "then_run r d =
     \<lparr>effects = effects r @ effects d, unhandled = unhandled r @ unhandled d,
      outcome = outcome d\<rparr>"

text \<open>A state in which no event can happen any more.\<close>

definition final :: "(nat \<Rightarrow> request \<Rightarrow> fetch_reply) \<Rightarrow> file_stream \<Rightarrow> string \<Rightarrow>
   abort_signal option \<Rightarrow> loop \<Rightarrow> bool" where
  "final fch file uploadUrl abortController s \<longleftrightarrow>
     (\<forall>t. \<not> step fch file uploadUrl abortController s t)"

section \<open>Vocabulary of the properties\<close>

text \<open>The number of bytes in the chunks before chunk \<open>k\<close> (chunks counted from 0).\<close>

definition offset :: "bytes list \<Rightarrow> nat \<Rightarrow> int" where
  "offset chunks k = int (sum_list (map length (take k chunks)))"

text \<open>
  Reading a decimal numeral: digits only, no leading zero, an optional minus sign
  before a numeral that is not zero. \<open>None\<close> for any other string.
\<close>

definition digit_of :: "char \<Rightarrow> nat option" where
  "digit_of c = map_of (zip ''0123456789'' [0, 1, 2, 3, 4, 5, 6, 7, 8, 9]) c"

fun horner :: "nat \<Rightarrow> string \<Rightarrow> nat option" where
  "horner acc [] = Some acc"
| "horner acc (c # cs) =
     (case digit_of c of None \<Rightarrow> None | Some d \<Rightarrow> horner (10 * acc + d) cs)"

definition parse_nat :: "string \<Rightarrow> nat option" where
  "parse_nat s =
     (if s = [] \<or> (hd s = CHR ''0'' \<and> tl s \<noteq> []) then None else horner 0 s)"

definition parse_int :: "string \<Rightarrow> int option" where
  "parse_int s =
     (case s of
        [] \<Rightarrow> None
      | c # cs \<Rightarrow>
          if c = CHR ''-'' then
            (case parse_nat cs of
               None \<Rightarrow> None
             | Some n \<Rightarrow> if n = 0 then None else Some (- int n))
          else map_option int (parse_nat s))"

text \<open>
  A list of effects is sequential when no request is issued while another one is in
  flight: between two requests the first one settles. The flag says whether a request
  is in flight.
\<close>

fun in_turn :: "bool \<Rightarrow> effect list \<Rightarrow> bool" where
  "in_turn busy [] = True"
| "in_turn busy (EvFetch q # es) = (\<not> busy \<and> in_turn True es)"
| "in_turn busy (EvSettled rp # es) = (busy \<and> in_turn False es)"
| "in_turn busy (e # es) = in_turn busy es"

definition sequential :: "effect list \<Rightarrow> bool" where
  "sequential es = in_turn False es"

text \<open>
  How often the \<^verbatim>\<open>'data'\<close> listener has run, that is, how many chunks have been delivered:
  each run of the listener begins by pausing the stream.
\<close>

definition deliveries :: "run \<Rightarrow> nat" where
  "deliveries r = length (filter (\<lambda>e. e = EvPause) (effects r))"

text \<open>The responses among some effects, in order; those of a whole run.\<close>

definition responses_of :: "effect list \<Rightarrow> response list" where
  "responses_of es =
     concat (map (\<lambda>e. case e of EvSettled (Responded res) \<Rightarrow> [res] | _ \<Rightarrow> []) es)"

definition responses :: "run \<Rightarrow> response list" where
  "responses r = responses_of (effects r)"

text \<open>The effects that come before the promise of the transfer settles.\<close>

fun is_settling :: "effect \<Rightarrow> bool" where
  "is_settling (EvResolve d) = True"
| "is_settling (EvReject err) = True"
| "is_settling e = False"

definition until_settled :: "effect list \<Rightarrow> effect list" where
  "until_settled es = takeWhile (\<lambda>e. \<not> is_settling e) es"

text \<open>The responses received before the promise of the transfer settles.\<close>

definition received :: "run \<Rightarrow> response list" where
  "received r = responses_of (until_settled (effects r))"

text \<open>A response whose body parses to a truthy value, which \<^verbatim>\<open>uploadData\<close> then keeps.\<close>

definition has_payload :: "response \<Rightarrow> bool" where
  "has_payload res = (case body res of None \<Rightarrow> False | Some d \<Rightarrow> truthy d)"

definition payload_reply :: "fetch_reply \<Rightarrow> bool" where
  "payload_reply rp =
     (case rp of FetchRejected err \<Rightarrow> False | Responded res \<Rightarrow> has_payload res)"

text \<open>
  A reply on which the \<^verbatim>\<open>'data'\<close> listener runs to its end and resumes the stream: a
  response with a status below 400, and with a body that is JSON unless a payload is
  kept already (the flag), in which case the body is not read.
\<close>

definition passes :: "bool \<Rightarrow> fetch_reply \<Rightarrow> bool" where
  "passes kept rp =
     (case rp of
        FetchRejected err \<Rightarrow> False
      | Responded res \<Rightarrow> status res < 400 \<and> (kept \<or> body res \<noteq> None))"

text \<open>A reply with a status below 400 whose body parses to a falsy value.\<close>

definition falsy_reply :: "fetch_reply \<Rightarrow> bool" where
  "falsy_reply rp =
     (case rp of
        FetchRejected err \<Rightarrow> False
      | Responded res \<Rightarrow>
          status res < 400 \<and> (case body res of None \<Rightarrow> False | Some d \<Rightarrow> \<not> truthy d))"

text \<open>What lines 145 and 146 throw for a response with status 400 or more.\<close>

definition thrown_for :: "response \<Rightarrow> error" where
  "thrown_for res =
     (case body res of None \<Rightarrow> JsonSyntaxError | Some err \<Rightarrow> MaxError (status res) err)"

section \<open>Concrete inputs\<close>

text \<open>
  The two-chunk scenario: a file of 1500 bytes delivered as chunks of 1000 and 500
  bytes, with an eager \<^verbatim>\<open>'end'\<close>; the first response carries \<^verbatim>\<open>{ id: 7, token: "abc" }\<close>,
  later ones \<^verbatim>\<open>{}\<close>.
\<close>

definition clip_chunks :: "bytes list" where
  "clip_chunks = [replicate 1000 0, replicate 500 0]"

definition clip :: file_stream where
  "clip = \<lparr>stream = \<lparr>rs_path = PathStr ''/data/clip.mp4'', rs_chunks = clip_chunks,
                      rs_end = StreamEnd, rs_eager = True\<rparr>,
           fileName = ''clip.mp4'', contentLength = 1500\<rparr>"


definition token_payload :: json where
  "token_payload = JObj [(''id'', JNum 7), (''token'', JStr ''abc'')]"

definition accepting_fetch :: "nat \<Rightarrow> request \<Rightarrow> fetch_reply" where
  "accepting_fetch i q =
     (if i = 0 then Responded \<lparr>status = 200, body = Some token_payload\<rparr>
      else Responded \<lparr>status = 200, body = Some (JObj [])\<rparr>)"

text \<open>A server that answers every request with status 400 and a JSON error body.\<close>

definition error_payload :: json where
  "error_payload = JObj [(''code'', JStr ''bad.request'')]"

definition refusing_fetch :: "nat \<Rightarrow> request \<Rightarrow> fetch_reply" where
  "refusing_fetch i q = Responded \<lparr>status = 400, body = Some error_payload\<rparr>"

text \<open>A server that accepts the first request with the payload and refuses the others.\<close>

definition refusing_later_fetch :: "nat \<Rightarrow> request \<Rightarrow> fetch_reply" where
  "refusing_later_fetch i q =
     (if i = 0 then Responded \<lparr>status = 200, body = Some token_payload\<rparr>
      else Responded \<lparr>status = 400, body = Some error_payload\<rparr>)"

text \<open>A server that answers \<^verbatim>\<open>null\<close> to the first request and the payload to the others.\<close>

definition late_payload_fetch :: "nat \<Rightarrow> request \<Rightarrow> fetch_reply" where
  "late_payload_fetch i q =
     (if i = 0 then Responded \<lparr>status = 200, body = Some JNull\<rparr>
      else Responded \<lparr>status = 200, body = Some token_payload\<rparr>)"

text \<open>A server that answers every request with status 200 and the body \<^verbatim>\<open>null\<close>.\<close>

definition null_fetch :: "nat \<Rightarrow> request \<Rightarrow> fetch_reply" where
  "null_fetch i q = Responded \<lparr>status = 200, body = Some JNull\<rparr>"

text \<open>Requests that are still in flight when the deadline timer aborts the signal.\<close>

definition aborted_fetch :: "nat \<Rightarrow> request \<Rightarrow> fetch_reply" where
  "aborted_fetch i q = FetchRejected AbortError"

text \<open>
  A small world: \<^verbatim>\<open>/data\<close> is a directory, \<^verbatim>\<open>/data/clip.mp4\<close> the regular file of the
  scenario, no other path can be opened; the upload server is a parameter.
\<close>

definition world :: "(nat \<Rightarrow> request \<Rightarrow> fetch_reply) \<Rightarrow> env" where
  "world fch =
     \<lparr>fs_stat = (\<lambda>p. if p = PathStr ''/data/clip.mp4'' then Inr \<lparr>isFile = True, st_size = 1500\<rparr>
                     else if p = PathStr ''/data'' then Inr \<lparr>isFile = False, st_size = 4096\<rparr>
                     else Inl (FsError ''ENOENT'')),
      fs_read = (\<lambda>p. if p = ''/data/clip.mp4'' then (clip_chunks, StreamEnd, True)
                     else if p = ''/data'' then ([], StreamError (FsError ''EISDIR''), False)
                     else ([], StreamOpenError (FsError ''ENOENT''), False)),
      randomUUID = ''0b8e6f0c-5d0a-4c53-9d3e-1f0f5a7c2a11'',
      getUploadUrl = (\<lambda>t. Inr ''https://upload.example/session''),
      fetch = fch\<rparr>"

definition three_bytes :: file_buffer where
  "three_bytes = \<lparr>buffer = [1, 2, 3], bufferName = ''0b8e6f0c-5d0a-4c53-9d3e-1f0f5a7c2a11''\<rparr>"

text \<open>
  A stream of the caller's over the same file that starts at byte 1497, as
  \<^verbatim>\<open>fs.createReadStream(path, { start: 1497 })\<close> gives it: three bytes in one chunk, while
  \<^verbatim>\<open>stat\<close> of its path reports 1500 bytes. And the upload file it is normalised to.
\<close>

definition clip_tail :: read_stream where
  "clip_tail = \<lparr>rs_path = PathStr ''/data/clip.mp4'', rs_chunks = [1, 2, 3] # [],
                rs_end = StreamEnd, rs_eager = False\<rparr>"

definition clip_tail_file :: file_stream where
  "clip_tail_file = \<lparr>stream = clip_tail, fileName = ''clip.mp4'', contentLength = 1500\<rparr>"


section \<open>Basic facts\<close>

lemma requests_prepend4 [simp]:
  "requests (prepend [EvPause, EvFetch q, EvSettled rp, EvResume] r) = q # requests r"
  by (simp add: requests_def prepend_def)

lemma responses_of_append [simp]:
  "responses_of (es @ es') = responses_of es @ responses_of es'"
  by (simp add: responses_of_def)

lemma responses_of_settling [simp]: "responses_of (settling out) = []"
  by (cases out) (simp_all add: responses_of_def settling_def)

lemma requests_settling:
  "concat (map (\<lambda>e. case e of EvFetch q \<Rightarrow> [q] | _ \<Rightarrow> []) (settling out)) = []"
  by (cases out) (simp_all add: settling_def)

lemma responses_prepend4 [simp]:
  "responses (prepend [EvPause, EvFetch q, EvSettled rp, EvResume] r) =
     (case rp of Responded res \<Rightarrow> [res] | FetchRejected err \<Rightarrow> []) @ responses r"
  by (simp add: responses_def responses_of_def prepend_def split: fetch_reply.splits)

lemma responses_of_Nil [simp]: "responses_of [] = []"
  by (simp add: responses_of_def)

lemma until_settled_Nil [simp]: "until_settled [] = []"
  by (simp add: until_settled_def)

lemma until_settled_Cons [simp]:
  "until_settled (e # es) = (if is_settling e then [] else e # until_settled es)"
  by (simp add: until_settled_def)

lemma until_settled_prepend4 [simp]:
  "until_settled (effects (prepend [EvPause, EvFetch q, EvSettled rp, EvResume] r)) =
     [EvPause, EvFetch q, EvSettled rp, EvResume] @ until_settled (effects r)"
  by (simp add: until_settled_def prepend_def)

lemma until_settled_settling [simp]:
  "until_settled (settling out @ es) = (if out = Pending then until_settled es else [])"
  by (cases out) (simp_all add: until_settled_def settling_def)

lemma until_settled_settling_only [simp]: "until_settled (settling out) = []"
  by (cases out) (simp_all add: until_settled_def settling_def)

lemma received_prepend4 [simp]:
  "received (prepend [EvPause, EvFetch q, EvSettled rp, EvResume] r) =
     (case rp of Responded res \<Rightarrow> [res] | FetchRejected err \<Rightarrow> []) @ received r"
  by (simp add: received_def responses_of_def split: fetch_reply.splits)

lemma outcome_prepend [simp]: "outcome (prepend es r) = outcome r"
  by (simp add: prepend_def)

lemma unhandled_prepend [simp]: "unhandled (prepend es r) = unhandled r"
  by (simp add: prepend_def)

lemma effects_prepend [simp]: "effects (prepend es r) = es @ effects r"
  by (simp add: prepend_def)

lemma offset_0 [simp]: "offset chunks 0 = 0"
  by (simp add: offset_def)

lemma offset_Suc:
  "k < length chunks \<Longrightarrow> offset chunks (Suc k) = offset chunks k + int (length (chunks ! k))"
  by (simp add: offset_def take_Suc_conv_app_nth)

lemma offset_Cons_Suc [simp]:
  "offset (c # cs) (Suc k) = int (length c) + offset cs k"
  by (simp add: offset_def)

lemma offset_all: "offset chunks (length chunks) = int (sum_list (map length chunks))"
  by (simp add: offset_def)

subsection \<open>The listener after the response\<close>

lemma after_fetch_prev:
  "after_fetch v chunk reply = Inr v' \<Longrightarrow> prevChunk v' = prevChunk v + int (length chunk)"
  by (auto simp: after_fetch_def split: fetch_reply.splits if_splits option.splits)


lemma after_fetch_err_status:
  "status res \<ge> 400 \<Longrightarrow> after_fetch v c (Responded res) = Inl (thrown_for res)"
  by (simp add: after_fetch_def thrown_for_def split: option.splits)


lemma after_fetch_falsy:
  "falsy_reply rp \<Longrightarrow> \<not> truthy (uploadData v) \<Longrightarrow>
   \<exists>v'. after_fetch v c rp = Inr v' \<and> \<not> truthy (uploadData v')"
  by (auto simp: falsy_reply_def after_fetch_def split: fetch_reply.splits option.splits)

lemma after_fetch_passes:
  "(\<exists>v'. after_fetch v c rp = Inr v') = passes (truthy (uploadData v)) rp"
  by (auto simp: after_fetch_def passes_def split: fetch_reply.splits option.splits)

lemma after_fetch_throws:
  "after_fetch v c rp = Inl err \<Longrightarrow> \<not> passes (truthy (uploadData v)) rp"
  using after_fetch_passes[of v c rp] by auto

lemma after_fetch_completes:
  "after_fetch v c rp = Inr v' \<Longrightarrow> passes (truthy (uploadData v)) rp"
  using after_fetch_passes[of v c rp] by auto

lemma after_fetch_kept:
  "after_fetch v c rp = Inr v' \<Longrightarrow>
   truthy (uploadData v') = (truthy (uploadData v) \<or> payload_reply rp)"
  by (auto simp: after_fetch_def payload_reply_def has_payload_def
      split: fetch_reply.splits if_splits option.splits)

subsection \<open>The delivery loop\<close>

lemma deliver_last_eager:
  "rs_eager (stream file) \<Longrightarrow>
   deliver fch file url sg i v [c] =
     (let req = chunk_request file url sg (prevChunk v) c; reply = fch i req;
          out = last_event file v
      in case after_fetch v c reply of
           Inl err \<Rightarrow>
             \<lparr>effects = [EvPause, EvFetch req] @ settling out @ [EvSettled reply],
              unhandled = [err], outcome = out\<rparr>
         | Inr v' \<Rightarrow>
             \<lparr>effects = [EvPause, EvFetch req] @ settling out @ [EvSettled reply, EvResume],
              unhandled = [], outcome = out\<rparr>)"
  by (simp add: Let_def)

lemma deliver_Cons:
  "\<not> (cs = [] \<and> rs_eager (stream file)) \<Longrightarrow>
   deliver fch file url sg i v (c # cs) =
     (let req = chunk_request file url sg (prevChunk v) c; reply = fch i req
      in case after_fetch v c reply of
           Inl err \<Rightarrow>
             \<lparr>effects = [EvPause, EvFetch req, EvSettled reply], unhandled = [err],
              outcome = Pending\<rparr>
         | Inr v' \<Rightarrow>
             prepend [EvPause, EvFetch req, EvSettled reply, EvResume]
               (deliver fch file url sg (Suc i) v' cs))"
  by (cases "cs = []") (simp_all add: Let_def split: sum.splits)

lemma deliver_first_request:
  "requests (deliver fch file url sg i v (c # cs)) =
     chunk_request file url sg (prevChunk v) c #
     (case after_fetch v c (fch i (chunk_request file url sg (prevChunk v) c)) of
        Inl err \<Rightarrow> []
      | Inr v' \<Rightarrow> requests (deliver fch file url sg (Suc i) v' cs))"
proof (cases "cs = [] \<and> rs_eager (stream file)")
  case True
  then show ?thesis
    by (simp add: Let_def requests_def requests_settling settling_def last_event_def
        split: sum.splits outcome.splits)
next
  case False
  then show ?thesis
    by (simp add: deliver_Cons Let_def requests_def del: deliver.simps split: sum.splits)
qed

lemma requests_settling_run [simp]:
  "requests \<lparr>effects = settling out, unhandled = us, outcome = out'\<rparr> = []"
  by (simp add: requests_def requests_settling)


lemma deliver_requests_length:
  "length (requests (deliver fch file url sg i v chunks)) \<le> length chunks"
proof (induction chunks arbitrary: i v)
  case Nil
  show ?case by simp
next
  case (Cons c cs)
  show ?case
    unfolding deliver_first_request using Cons.IH by (simp split: sum.splits)
qed

lemma deliver_requests_some:
  "requests (deliver fch file url sg i v (c # cs)) \<noteq> []"
  unfolding deliver_first_request by simp

lemma deliver_requests_nth:
  "k < length (requests (deliver fch file url sg i v chunks)) \<Longrightarrow>
   requests (deliver fch file url sg i v chunks) ! k =
     chunk_request file url sg (prevChunk v + offset chunks k) (chunks ! k)"
proof (induction chunks arbitrary: i v k)
  case Nil
  then show ?case by simp
next
  case (Cons c cs)
  let ?q = "chunk_request file url sg (prevChunk v) c"
  show ?case
  proof (cases k)
    case 0
    then show ?thesis unfolding deliver_first_request by simp
  next
    case (Suc k')
    with Cons.prems obtain v' where v': "after_fetch v c (fch i ?q) = Inr v'"
      and k': "k' < length (requests (deliver fch file url sg (Suc i) v' cs))"
      unfolding deliver_first_request by (auto split: sum.splits)
    from Cons.IH[OF k'] after_fetch_prev[OF v'] Suc v' show ?thesis
      unfolding deliver_first_request by (simp add: add.assoc)
  qed
qed

text \<open>
  The next chunk is requested exactly when the listener of the chunk before has run to
  its end.
\<close>

lemma deliver_next_request:
  "Suc k < length chunks \<Longrightarrow>
   (Suc k < length (requests (deliver fch file url sg i v chunks))) =
     (k < length (requests (deliver fch file url sg i v chunks)) \<and>
      passes (truthy (uploadData v) \<or>
              (\<exists>m<k. payload_reply (fch (i + m) (requests (deliver fch file url sg i v chunks) ! m))))
        (fch (i + k) (requests (deliver fch file url sg i v chunks) ! k)))"
proof (induction chunks arbitrary: i v k)
  case Nil
  then show ?case by simp
next
  case (Cons c cs)
  let ?q = "chunk_request file url sg (prevChunk v) c"
  from Cons.prems obtain c' cs' where cs: "cs = c' # cs'" by (cases cs) auto
  show ?case
  proof (cases "after_fetch v c (fch i ?q)")
    case (Inl err)
    from after_fetch_throws[OF Inl] Inl show ?thesis
      unfolding deliver_first_request by (cases k) simp_all
  next
    case (Inr v')
    note kept = after_fetch_kept[OF Inr]
    note pass = after_fetch_completes[OF Inr]
    let ?D' = "deliver fch file url sg (Suc i) v' cs"
    have req: "requests (deliver fch file url sg i v (c # cs)) = ?q # requests ?D'"
      unfolding deliver_first_request using Inr by simp
    show ?thesis
    proof (cases k)
      case 0
      with pass deliver_requests_some[of fch "file" url sg "Suc i" v' c' cs'] cs show ?thesis
        unfolding req by simp
    next
      case (Suc k')
      with Cons.prems have "Suc k' < length cs" by simp
      note IH = Cons.IH[OF this, of "Suc i" v']
      have ex: "(\<exists>m<Suc k'. payload_reply (fch (i + m) ((?q # requests ?D') ! m))) =
          (payload_reply (fch i ?q) \<or>
           (\<exists>m<k'. payload_reply (fch (Suc i + m) (requests ?D' ! m))))"
      proof
        assume "\<exists>m<Suc k'. payload_reply (fch (i + m) ((?q # requests ?D') ! m))"
        then obtain m where m: "m < Suc k'"
          "payload_reply (fch (i + m) ((?q # requests ?D') ! m))" by blast
        show "payload_reply (fch i ?q) \<or>
           (\<exists>m<k'. payload_reply (fch (Suc i + m) (requests ?D' ! m)))"
        proof (cases m)
          case 0
          with m show ?thesis by simp
        next
          case (Suc m')
          with m have "m' < k'" "payload_reply (fch (Suc i + m') (requests ?D' ! m'))"
            by simp_all
          then show ?thesis by blast
        qed
      next
        assume "payload_reply (fch i ?q) \<or>
           (\<exists>m<k'. payload_reply (fch (Suc i + m) (requests ?D' ! m)))"
        then show "\<exists>m<Suc k'. payload_reply (fch (i + m) ((?q # requests ?D') ! m))"
        proof
          assume "payload_reply (fch i ?q)"
          then have "0 < Suc k' \<and> payload_reply (fch (i + 0) ((?q # requests ?D') ! 0))"
            by simp
          then show ?thesis by blast
        next
          assume "\<exists>m<k'. payload_reply (fch (Suc i + m) (requests ?D' ! m))"
          then obtain m where "m < k'" "payload_reply (fch (Suc i + m) (requests ?D' ! m))"
            by blast
          then have "Suc m < Suc k' \<and>
              payload_reply (fch (i + Suc m) ((?q # requests ?D') ! Suc m))"
            by simp
          then show ?thesis by blast
        qed
      qed
      show ?thesis
        unfolding req Suc ex using IH kept by (simp add: disj_assoc)
    qed
  qed
qed

lemma deliver_settled_all:
  "outcome (deliver fch file url sg i v chunks) \<noteq> Pending \<Longrightarrow>
   length (requests (deliver fch file url sg i v chunks)) = length chunks"
proof (induction chunks arbitrary: i v)
  case Nil
  show ?case by simp
next
  case (Cons c cs)
  show ?case
  proof (cases "cs = [] \<and> rs_eager (stream file)")
    case True
    then show ?thesis
      unfolding deliver_first_request by (simp split: sum.splits)
  next
    case False
    with Cons show ?thesis
      unfolding deliver_first_request
      by (auto simp: deliver_Cons Let_def simp del: deliver.simps split: sum.splits)
  qed
qed

lemma in_turn_settling [simp]: "in_turn busy (settling out @ es) = in_turn busy es"
  by (cases out) (simp_all add: settling_def)

lemma in_turn_settling_only [simp]: "in_turn busy (settling out) = True"
  by (cases out) (simp_all add: settling_def)

lemma deliver_sequential: "sequential (effects (deliver fch file url sg i v chunks))"
  unfolding sequential_def
proof (induction chunks arbitrary: i v)
  case Nil
  show ?case by simp
next
  case (Cons c cs)
  show ?case
  proof (cases "cs = [] \<and> rs_eager (stream file)")
    case True
    then show ?thesis
      by (simp add: Let_def split: sum.splits)
  next
    case False
    with Cons show ?thesis
      by (simp add: deliver_Cons Let_def del: deliver.simps split: sum.splits)
  qed
qed

lemma deliveries_settling [simp]:
  "filter (\<lambda>e. e = EvPause) (settling out) = []"
  by (cases out) (simp_all add: settling_def)

lemma deliver_deliveries:
  "deliveries (deliver fch file url sg i v chunks) =
     length (requests (deliver fch file url sg i v chunks))"
proof (induction chunks arbitrary: i v)
  case Nil
  show ?case by (simp add: deliveries_def)
next
  case (Cons c cs)
  show ?case
  proof (cases "cs = [] \<and> rs_eager (stream file)")
    case True
    then show ?thesis
      unfolding deliver_first_request
      by (simp add: deliveries_def Let_def split: sum.splits)
  next
    case False
    with Cons show ?thesis
      unfolding deliver_first_request
      by (simp add: deliver_Cons deliveries_def Let_def del: deliver.simps split: sum.splits)
  qed
qed


lemma deliver_error_status:
  "EvSettled (Responded res) \<in> set (until_settled (effects (deliver fch file url sg i v chunks))) \<Longrightarrow>
   status res \<ge> 400 \<Longrightarrow>
   outcome (deliver fch file url sg i v chunks) = Pending \<and>
   unhandled (deliver fch file url sg i v chunks) = [thrown_for res] \<and>
   last (effects (deliver fch file url sg i v chunks)) = EvSettled (Responded res)"
proof (induction chunks arbitrary: i v)
  case Nil
  then show ?case by simp
next
  case (Cons c cs)
  let ?q = "chunk_request file url sg (prevChunk v) c"
  show ?case
  proof (cases "cs = [] \<and> rs_eager (stream file)")
    case True
    show ?thesis
    proof (cases "last_event file v = Pending")
      case False
      with True Cons.prems(1) show ?thesis
        by (simp add: Let_def split: sum.splits)
    next
      case pending: True
      show ?thesis
      proof (cases "after_fetch v c (fch i ?q)")
        case (Inl err)
        with True pending Cons.prems(1) have eq: "fch i ?q = Responded res"
          by (simp add: Let_def settling_def)
        with Inl Cons.prems(2) True pending show ?thesis
          by (simp add: Let_def after_fetch_err_status settling_def)
      next
        case (Inr v')
        have ne: "fch i ?q \<noteq> Responded res"
          using Inr after_fetch_err_status[OF Cons.prems(2), of v c] by auto
        with True pending Inr Cons.prems(1) show ?thesis
          by (simp add: Let_def settling_def)
      qed
    qed
  next
    case False
    show ?thesis
    proof (cases "after_fetch v c (fch i ?q)")
      case (Inl err)
      with False Cons.prems(1) have eq: "fch i ?q = Responded res"
        by (simp add: deliver_Cons Let_def del: deliver.simps)
      with Inl Cons.prems(2) False show ?thesis
        by (simp add: deliver_Cons Let_def after_fetch_err_status del: deliver.simps)
    next
      case (Inr v')
      have ne: "fch i ?q \<noteq> Responded res"
        using Inr after_fetch_err_status[OF Cons.prems(2), of v c] by auto
      with False Inr Cons.prems(1)
      have mem: "EvSettled (Responded res)
          \<in> set (until_settled (effects (deliver fch file url sg (Suc i) v' cs)))"
        by (simp add: deliver_Cons Let_def del: deliver.simps)
      then have "until_settled (effects (deliver fch file url sg (Suc i) v' cs)) \<noteq> []"
        by auto
      then have "effects (deliver fch file url sg (Suc i) v' cs) \<noteq> []"
        by (auto simp: until_settled_def)
      with Cons.IH[OF mem Cons.prems(2)] False Inr show ?thesis
        by (simp add: deliver_Cons Let_def del: deliver.simps)
    qed
  qed
qed

subsection \<open>Resolved transfers\<close>






subsection \<open>Falsy bodies\<close>

lemma deliver_all_falsy:
  "\<forall>i q. falsy_reply (fch i q) \<Longrightarrow> \<not> truthy (uploadData v) \<Longrightarrow> rs_end (stream file) = StreamEnd \<Longrightarrow>
   outcome (deliver fch file url sg i v chunks) = Rejected (Error ''Failed to upload'') \<and>
   length (requests (deliver fch file url sg i v chunks)) = length chunks"
proof (induction chunks arbitrary: i v)
  case Nil
  then show ?case by (simp add: last_event_def on_end_def)
next
  case (Cons c cs)
  let ?q = "chunk_request file url sg (prevChunk v) c"
  from Cons.prems(1) have "falsy_reply (fch i ?q)" by blast
  from after_fetch_falsy[OF this Cons.prems(2)] obtain v' where
    v': "after_fetch v c (fch i ?q) = Inr v'" "\<not> truthy (uploadData v')" by blast
  show ?case
  proof (cases "cs = [] \<and> rs_eager (stream file)")
    case True
    with v'(1) Cons.prems(2,3) show ?thesis
      unfolding deliver_first_request
      by (simp add: Let_def last_event_def on_end_def)
  next
    case False
    from Cons.IH[OF Cons.prems(1) v'(2) Cons.prems(3)] v'(1) False show ?thesis
      unfolding deliver_first_request
      by (simp add: deliver_Cons Let_def del: deliver.simps)
  qed
qed


subsection \<open>The event loop\<close>

text \<open>The gating invariant holds initially and is kept by every event.\<close>

lemma gated_start: "gated (start file)"
  by (simp add: gated_def start_def split: stream_end.splits)

lemma one_in_flight:
  "length xs \<le> 1 \<Longrightarrow> xs = before @ x # later \<Longrightarrow> before = [] \<and> later = []"
  by (cases before) auto

lemma gated_listener_starts:
  "gated s \<Longrightarrow> flowing s \<Longrightarrow> gated (listener_starts file url sg s chunk rest)"
  by (auto simp: gated_def listener_starts_def Let_def)

lemma gated_stream_finishes: "gated s \<Longrightarrow> gated (stream_finishes file s)"
  by (simp add: gated_def stream_finishes_def)

lemma in_flight_listener_continues [simp]:
  "in_flight (listener_continues fch s others chunk i req) = others"
  by (simp add: listener_continues_def Let_def split: sum.splits)

lemma gated_listener_continues:
  assumes "gated s" and "in_flight s = before @ (chunk, i, req) # later"
  shows "gated (listener_continues fch s (before @ later) chunk i req)"
proof -
  from assms have "length (in_flight s) \<le> 1" by (simp add: gated_def)
  from one_in_flight[OF this assms(2)] have "before @ later = []" by simp
  then show ?thesis by (simp add: gated_def)
qed

lemma gated_step:
  "step fch file url sg s t \<Longrightarrow> gated s \<Longrightarrow> gated t"
proof (induction rule: step.induct)
  case (data_event s chunk rest)
  then show ?case by (simp add: gated_listener_starts)
next
  case (fetch_settled s before chunk i req later)
  then show ?case by (simp add: gated_listener_continues)
next
  case (end_event s)
  then show ?case by (simp add: gated_stream_finishes)
qed

lemma gated_steps:
  "(step fch file url sg)\<^sup>*\<^sup>* s t \<Longrightarrow> gated s \<Longrightarrow> gated t"
  by (induction rule: rtranclp_induct) (auto intro: gated_step)

text \<open>
  Under the invariant at most one event is enabled, so the loop has one execution, and
  the state it ends in is unique.
\<close>

lemma step_deterministic:
  assumes "gated s" and "step fch file url sg s t" and "step fch file url sg s t'"
  shows "t = t'"
  using assms(2)
proof (cases rule: step.cases)
  case (data_event chunk rest)
  note d = this
  from assms(3) show ?thesis
  proof (cases rule: step.cases)
    case (data_event chunk' rest')
    with d show ?thesis by simp
  next
    case (fetch_settled before chunk' i req later)
    with assms(1) d(2) show ?thesis by (simp add: gated_def)
  next
    case end_event
    with d show ?thesis by simp
  qed
next
  case (fetch_settled before chunk i req later)
  note f = this
  from assms(1) have len: "length (in_flight s) \<le> 1" by (simp add: gated_def)
  from one_in_flight[OF len f(2)] have e: "before = []" "later = []" by simp_all
  from assms(3) show ?thesis
  proof (cases rule: step.cases)
    case (data_event chunk' rest')
    with assms(1) f(2) show ?thesis by (simp add: gated_def)
  next
    case (fetch_settled before' chunk' i' req' later')
    from one_in_flight[OF len fetch_settled(2)] have e': "before' = []" "later' = []" by simp_all
    from f(2) fetch_settled(2) e e' have "chunk' = chunk" "i' = i" "req' = req" by simp_all
    with f(1) fetch_settled(1) e e' show ?thesis by simp
  next
    case end_event
    with assms(1) f(2,3) show ?thesis by (simp add: gated_def)
  qed
next
  case end_event
  note n = this
  from assms(3) show ?thesis
  proof (cases rule: step.cases)
    case (data_event chunk' rest')
    with n show ?thesis by simp
  next
    case (fetch_settled before chunk' i req later)
    with assms(1) n(2) show ?thesis by (simp add: gated_def)
  next
    case end_event
    with n show ?thesis by simp
  qed
qed

lemma final_unique:
  assumes "(step fch file url sg)\<^sup>*\<^sup>* s a" and "final fch file url sg a"
    and "(step fch file url sg)\<^sup>*\<^sup>* s b" and "final fch file url sg b" and "gated s"
  shows "a = b"
  using assms
proof (induction rule: converse_rtranclp_induct)
  case base
  from base(2) show ?case
  proof (cases rule: converse_rtranclpE)
    case base
    then show ?thesis by simp
  next
    case (step y)
    with base.prems(1) show ?thesis by (simp add: final_def)
  qed
next
  case (step s s')
  note first = step.hyps(1) and IH = step.IH and prems = step.prems
  from prems(2) show ?case
  proof (cases rule: converse_rtranclpE)
    case base
    with first prems(3) show ?thesis by (simp add: final_def)
  next
    case (step s'')
    from step_deterministic[OF prems(4) first step(1)]
    have "s' = s''" .
    with step(2) have "(step fch file url sg)\<^sup>*\<^sup>* s' b" by simp
    moreover from prems(4) first have "gated s'" by (rule gated_step[rotated])
    ultimately show ?thesis using IH prems(1,3) by simp
  qed
qed


text \<open>From an idle state the loop runs as \<open>deliver\<close> does, and then stops.\<close>

lemma settle_pending:
  "outcome r = Pending \<Longrightarrow>
   settle out r = then_run r \<lparr>effects = settling out, unhandled = [], outcome = out\<rparr>"
  by (simp add: settle_def then_run_def)

lemma deliver_execution:
  assumes "waiting s = chunks" and "flowing s" and "in_flight s = []" and "\<not> finished s"
    and "\<not> due s" and "outcome (seen s) = Pending"
  shows "\<exists>t. (step fch file url sg)\<^sup>*\<^sup>* s t \<and> final fch file url sg t \<and>
             seen t = then_run (seen s) (deliver fch file url sg (issued s) (vars s) chunks)"
  using assms
proof (induction chunks arbitrary: s)
  case Nil
  let ?t = "stream_finishes file s"
  from Nil have st: "step fch file url sg s ?t" by (simp add: step.end_event)
  have fin: "final fch file url sg ?t"
    unfolding final_def
  proof (intro allI notI)
    fix u assume "step fch file url sg ?t u"
    then show False
      using Nil by (cases rule: step.cases) (simp_all add: stream_finishes_def)
  qed
  from Nil(6) have "seen ?t = then_run (seen s) (deliver fch file url sg (issued s) (vars s) [])"
    by (simp add: stream_finishes_def settle_pending)
  with st fin show ?case by blast
next
  case (Cons c cs)
  let ?q = "chunk_request file url sg (prevChunk (vars s)) c"
  let ?s1 = "listener_starts file url sg s c cs"
  from Cons.prems have st1: "step fch file url sg s ?s1" by (simp add: step.data_event)
  have s1: "in_flight ?s1 = [] @ (c, issued s, ?q) # []" "waiting ?s1 = cs"
    "\<not> finished ?s1" "due ?s1 = (cs = [] \<and> rs_eager (stream file))" "vars ?s1 = vars s"
    "\<not> flowing ?s1"
    "seen ?s1 = (seen s)\<lparr>effects := effects (seen s) @ [EvPause, EvFetch ?q]\<rparr>"
    using Cons.prems by (simp_all add: listener_starts_def Let_def)
  show ?case
  proof (cases "cs = [] \<and> rs_eager (stream file)")
    case True
    let ?s2 = "stream_finishes file ?s1"
    let ?s3 = "listener_continues fch ?s2 [] c (issued s) ?q"
    from True s1 have st2: "step fch file url sg ?s1 ?s2"
      by (intro step.end_event) simp_all
    have s2: "in_flight ?s2 = [] @ (c, issued s, ?q) # []" "\<not> due ?s2" "finished ?s2"
      "\<not> flowing ?s2" "waiting ?s2 = []" "vars ?s2 = vars s"
      "seen ?s2 = settle (last_event file (vars s)) (seen ?s1)"
      using s1 True by (simp_all add: stream_finishes_def)
    from step.fetch_settled[OF s2(1,2)] have st3: "step fch file url sg ?s2 ?s3" by simp
    from st1 st2 st3 have reach: "(step fch file url sg)\<^sup>*\<^sup>* s ?s3" by simp
    have s3: "in_flight ?s3 = []" "finished ?s3" "waiting ?s3 = []" "\<not> due ?s3"
      using s2 by (simp_all add: listener_continues_def Let_def split: sum.splits)
    have fin: "final fch file url sg ?s3"
      unfolding final_def
    proof (intro allI notI)
      fix u assume "step fch file url sg ?s3 u"
      then show False
        using s3 by (cases rule: step.cases) simp_all
    qed
    have "seen ?s3 = then_run (seen s) (deliver fch file url sg (issued s) (vars s) (c # cs))"
      using True s1(7) s2(6,7) Cons.prems(6)
      by (simp add: listener_continues_def Let_def then_run_def settle_def split: sum.splits)
    with reach fin show ?thesis by blast
  next
    case False
    let ?s2 = "listener_continues fch ?s1 [] c (issued s) ?q"
    from False s1 have nd: "\<not> due ?s1" by simp
    from step.fetch_settled[OF s1(1) nd] have st2: "step fch file url sg ?s1 ?s2" by simp
    from st1 st2 have reach: "(step fch file url sg)\<^sup>*\<^sup>* s ?s2" by simp
    show ?thesis
    proof (cases "after_fetch (vars s) c (fch (issued s) ?q)")
      case (Inl err)
      have s2: "\<not> flowing ?s2" "in_flight ?s2 = []" "\<not> due ?s2"
        using Inl s1 False by (simp_all add: listener_continues_def Let_def)
      have fin: "final fch file url sg ?s2"
        unfolding final_def
      proof (intro allI notI)
        fix u assume "step fch file url sg ?s2 u"
        then show False
          using s2 by (cases rule: step.cases) simp_all
      qed
      have "seen ?s2 = then_run (seen s) (deliver fch file url sg (issued s) (vars s) (c # cs))"
        using Inl Cons.prems(6) False s1(5,7)
        by (simp add: deliver_Cons listener_continues_def Let_def then_run_def
            del: deliver.simps)
      with reach fin show ?thesis by blast
    next
      case (Inr v')
      have s2: "waiting ?s2 = cs" "flowing ?s2" "in_flight ?s2 = []" "\<not> finished ?s2"
        "\<not> due ?s2" "outcome (seen ?s2) = Pending" "issued ?s2 = Suc (issued s)"
        "vars ?s2 = v'"
        using Inr Cons.prems False
        by (simp_all add: listener_continues_def listener_starts_def Let_def)
      have "\<exists>t. (step fch file url sg)\<^sup>*\<^sup>* ?s2 t \<and> final fch file url sg t \<and>
          seen t = then_run (seen ?s2) (deliver fch file url sg (Suc (issued s)) v' cs)"
        using Cons.IH[OF s2(1-6)] unfolding s2(7,8) .
      then obtain t where
        t: "(step fch file url sg)\<^sup>*\<^sup>* ?s2 t" "final fch file url sg t"
           "seen t = then_run (seen ?s2) (deliver fch file url sg (Suc (issued s)) v' cs)"
        by (elim exE conjE)
      have "then_run (seen ?s2) (deliver fch file url sg (Suc (issued s)) v' cs)
          = then_run (seen s) (deliver fch file url sg (issued s) (vars s) (c # cs))"
        using Inr Cons.prems(6) False s1(5,7)
        by (simp add: deliver_Cons listener_continues_def Let_def then_run_def prepend_def
            del: deliver.simps)
      with t(3)
      have "seen t = then_run (seen s) (deliver fch file url sg (issued s) (vars s) (c # cs))"
        by simp
      moreover from reach t(1) have "(step fch file url sg)\<^sup>*\<^sup>* s t"
        by (rule rtranclp_trans)
      ultimately show ?thesis using t(2) by blast
    qed
  qed
qed

lemma start_execution:
  "\<exists>t. (step fch file url sg)\<^sup>*\<^sup>* (start file) t \<and> final fch file url sg t \<and>
       seen t = uploadFromStream fch file url sg"
proof (cases "\<exists>err. rs_end (stream file) = StreamOpenError err")
  case True
  then obtain err where err: "rs_end (stream file) = StreamOpenError err" by blast
  have "final fch file url sg (start file)"
    unfolding final_def
  proof (intro allI notI)
    fix u assume "step fch file url sg (start file) u"
    then show False
      using err by (cases rule: step.cases) (simp_all add: start_def)
  qed
  moreover have "seen (start file) = uploadFromStream fch file url sg"
    using err by (simp add: start_def uploadFromStream_def)
  ultimately show ?thesis by blast
next
  case False
  then have st: "start file =
      \<lparr>flowing = True, waiting = rs_chunks (stream file), finished = False, due = False,
       in_flight = [], issued = 0, vars = \<lparr>prevChunk = - 1, uploadData = JNull\<rparr>,
       seen = \<lparr>effects = [], unhandled = [], outcome = Pending\<rparr>\<rparr>"
    by (simp add: start_def split: stream_end.splits)
  from False have up: "uploadFromStream fch file url sg =
      deliver fch file url sg 0 \<lparr>prevChunk = - 1, uploadData = JNull\<rparr> (rs_chunks (stream file))"
    by (simp add: uploadFromStream_def split: stream_end.splits)
  from deliver_execution[of "start file" "rs_chunks (stream file)" fch "file" url sg]
  obtain t where "(step fch file url sg)\<^sup>*\<^sup>* (start file) t" "final fch file url sg t"
    "seen t = then_run (seen (start file))
       (deliver fch file url sg (issued (start file)) (vars (start file)) (rs_chunks (stream file)))"
    by (auto simp: st)
  then show ?thesis
    unfolding up by (auto simp: st then_run_def)
qed

text \<open>
  Every execution of the event loop that can go no further has observed exactly the run
  computed by \<open>uploadFromStream\<close>. In particular, where that run leaves the promise pending,
  no event is left that could settle it.
\<close>

lemma event_loop_ends_in_run:
  assumes "(step fch file url sg)\<^sup>*\<^sup>* (start file) t" and "final fch file url sg t"
  shows "seen t = uploadFromStream fch file url sg"
proof -
  from start_execution[of fch "file" url sg] obtain t' where
    t': "(step fch file url sg)\<^sup>*\<^sup>* (start file) t'" "final fch file url sg t'"
        "seen t' = uploadFromStream fch file url sg" by blast
  from final_unique[OF assms t'(1,2) gated_start] t'(3) show ?thesis by simp
qed


subsection \<open>Decimal rendering\<close>

lemma digit_cases:
  "d < 10 \<Longrightarrow> d = 0 \<or> d = 1 \<or> d = 2 \<or> d = 3 \<or> d = 4 \<or> d = 5 \<or> d = 6 \<or> d = 7 \<or> d = 8 \<or> d = (9::nat)"
  by arith

lemma digit_char_values:
  "digit_char 0 = CHR ''0''" "digit_char 1 = CHR ''1''" "digit_char 2 = CHR ''2''"
  "digit_char 3 = CHR ''3''" "digit_char 4 = CHR ''4''" "digit_char 5 = CHR ''5''"
  "digit_char 6 = CHR ''6''" "digit_char 7 = CHR ''7''" "digit_char 8 = CHR ''8''"
  "digit_char 9 = CHR ''9''" "digit_char (Suc 0) = CHR ''1''"
  by code_simp+

lemma digit_of_digit_char: "d < 10 \<Longrightarrow> digit_of (digit_char d) = Some d"
  using digit_cases[of d] by (auto simp: digit_char_values digit_of_def)

lemma digit_char_zero: "d < 10 \<Longrightarrow> (digit_char d = CHR ''0'') = (d = 0)"
  using digit_cases[of d] by (auto simp: digit_char_values)

lemma digit_char_minus: "d < 10 \<Longrightarrow> digit_char d \<noteq> CHR ''-''"
  using digit_cases[of d] by (auto simp: digit_char_values)

lemma horner_append:
  "horner acc (xs @ [c]) =
     (case horner acc xs of
        None \<Rightarrow> None
      | Some a \<Rightarrow> (case digit_of c of None \<Rightarrow> None | Some d \<Rightarrow> Some (10 * a + d)))"
  by (induction xs arbitrary: acc) (auto split: option.splits)

lemma show_nat_some: "show_nat n \<noteq> []"
  by (subst show_nat.simps) simp

lemma horner_show_nat: "horner 0 (show_nat n) = Some n"
proof (induction n rule: show_nat.induct)
  case (1 n)
  show ?case
  proof (cases "n < 10")
    case True
    then show ?thesis
      by (subst show_nat.simps) (simp add: digit_of_digit_char)
  next
    case False
    with 1 have "horner 0 (show_nat (n div 10)) = Some (n div 10)" by simp
    with False show ?thesis
      by (subst show_nat.simps) (simp add: horner_append digit_of_digit_char)
  qed
qed

lemma hd_show_nat:
  "hd (show_nat n) \<noteq> CHR ''-'' \<and> (hd (show_nat n) = CHR ''0'' \<longrightarrow> n = 0)"
proof (induction n rule: show_nat.induct)
  case (1 n)
  show ?case
  proof (cases "n < 10")
    case True
    then show ?thesis
      by (subst (1 2) show_nat.simps) (simp add: digit_char_zero digit_char_minus)
  next
    case False
    with 1 have IH: "hd (show_nat (n div 10)) \<noteq> CHR ''-'' \<and>
        (hd (show_nat (n div 10)) = CHR ''0'' \<longrightarrow> n div 10 = 0)" by simp
    from False have "n div 10 \<noteq> 0" by simp
    with IH False show ?thesis
      by (subst (1 2) show_nat.simps) (simp add: show_nat_some)
  qed
qed

lemma show_nat_0: "show_nat 0 = ''0''"
  by (subst show_nat.simps) (simp add: digit_char_values)

lemma parse_show_nat: "parse_nat (show_nat n) = Some n"
proof (cases "n = 0")
  case True
  then show ?thesis by (simp add: show_nat_0 parse_nat_def digit_of_def)
next
  case False
  with hd_show_nat[of n] show ?thesis
    by (simp add: parse_nat_def show_nat_some horner_show_nat)
qed

lemma parse_show_int: "parse_int (show_int i) = Some i"
proof (cases "i < 0")
  case True
  then show ?thesis
    by (simp add: parse_int_def show_int_def parse_show_nat)
next
  case False
  obtain c cs where s: "show_nat (nat i) = c # cs"
    using show_nat_some[of "nat i"] by (cases "show_nat (nat i)") auto
  with hd_show_nat[of "nat i"] have "c \<noteq> CHR ''-''" by simp
  with False s parse_show_nat[of "nat i"] show ?thesis
    by (simp add: parse_int_def show_int_def)
qed


subsection \<open>Path names and the scenario\<close>

lemma basename_last_segment:
  assumes "name \<noteq> []" and "CHR ''/'' \<notin> set name"
  shows "basename (dir @ ''/'' @ name) = name"
proof -
  have r: "rev (dir @ ''/'' @ name) = rev name @ CHR ''/'' # rev dir" by simp
  from assms have hd: "rev name \<noteq> []" "hd (rev name) \<noteq> CHR ''/''"
    by (auto simp: hd_rev dest: last_in_set)
  then have d: "dropWhile (\<lambda>c. c = CHR ''/'') (rev name @ CHR ''/'' # rev dir)
      = rev name @ CHR ''/'' # rev dir"
    by (cases "rev name") auto
  from assms(2) have t: "takeWhile (\<lambda>c. c \<noteq> CHR ''/'') (rev name @ CHR ''/'' # rev dir) = rev name"
    by (auto simp: takeWhile_tail)
  show ?thesis unfolding basename_def r d t by simp
qed

lemma basename_examples:
  "basename ''/data/clip.mp4'' = ''clip.mp4''" "basename ''/data'' = ''data''"
  by (simp_all add: basename_def)

lemma clip_numerals:
  "show_int 0 = ''0''" "show_int 2 = ''2''" "show_int 999 = ''999''"
  "show_int 1000 = ''1000''" "show_int 1499 = ''1499''" "show_int 1500 = ''1500''"
  by code_simp+

lemma clip_offsets:
  "offset clip_chunks 0 = 0" "offset clip_chunks (Suc 0) = 1000"
  "offset clip_chunks (Suc (Suc 0)) = 1500"
  by (simp_all add: offset_def clip_chunks_def)

lemma clip_requests:
  "chunk_request clip u sg (- 1) (replicate 1000 0) =
     \<lparr>req_url = u, req_method = ''POST'', req_body = RawBody (replicate 1000 0),
      req_headers = [(''Content-Disposition'', ''attachment; filename=\"clip.mp4\"''),
                     (''Content-Range'', ''bytes 0-999/1500'')],
      req_signal = sg\<rparr>"
  "chunk_request clip u sg 999 (replicate 500 0) =
     \<lparr>req_url = u, req_method = ''POST'', req_body = RawBody (replicate 500 0),
      req_headers = [(''Content-Disposition'', ''attachment; filename=\"clip.mp4\"''),
                     (''Content-Range'', ''bytes 1000-1499/1500'')],
      req_signal = sg\<rparr>"
  by (simp_all add: chunk_request_def clip_def clip_numerals)

text \<open>
  The scenario on its eager stream: the promise is resolved with the payload of the
  first response while the request of the second chunk is still in flight.
\<close>

lemma clip_run:
  "uploadFromStream accepting_fetch clip u sg =
     \<lparr>effects =
        [EvPause, EvFetch (chunk_request clip u sg (- 1) (replicate 1000 0)),
         EvSettled (Responded \<lparr>status = 200, body = Some token_payload\<rparr>), EvResume,
         EvPause, EvFetch (chunk_request clip u sg 999 (replicate 500 0)),
         EvResolve token_payload,
         EvSettled (Responded \<lparr>status = 200, body = Some (JObj [])\<rparr>), EvResume],
      unhandled = [], outcome = Resolved token_payload\<rparr>"
  by (simp add: uploadFromStream_def clip_def clip_chunks_def accepting_fetch_def after_fetch_def
      last_event_def on_end_def settling_def prepend_def token_payload_def Let_def)

text \<open>
  On the same stream a refusal of the last chunk comes too late: the call has resolved
  already, and the error is thrown where nothing catches it.
\<close>

lemma clip_last_chunk_refused:
  "uploadFromStream refusing_later_fetch clip u sg =
     \<lparr>effects =
        [EvPause, EvFetch (chunk_request clip u sg (- 1) (replicate 1000 0)),
         EvSettled (Responded \<lparr>status = 200, body = Some token_payload\<rparr>), EvResume,
         EvPause, EvFetch (chunk_request clip u sg 999 (replicate 500 0)),
         EvResolve token_payload,
         EvSettled (Responded \<lparr>status = 400, body = Some error_payload\<rparr>)],
      unhandled = [MaxError 400 error_payload], outcome = Resolved token_payload\<rparr>"
  by (simp add: uploadFromStream_def clip_def clip_chunks_def refusing_later_fetch_def
      after_fetch_def last_event_def on_end_def settling_def prepend_def token_payload_def
      Let_def)

text \<open>And a payload that only the last response carries comes too late as well.\<close>

lemma clip_payload_too_late:
  "outcome (uploadFromStream late_payload_fetch clip u sg) = Rejected (Error ''Failed to upload'')"
  by (simp add: uploadFromStream_def clip_def clip_chunks_def late_payload_fetch_def
      after_fetch_def last_event_def on_end_def settling_def prepend_def Let_def)

lemma upload_default_delay:
  "upload_delay None = 20000" "upload_delay (Some \<lparr>timeout = None\<rparr>) = 20000"
  by (simp_all add: upload_delay_def DEFAULT_UPLOAD_TIMEOUT_def)

text \<open>The timer of a resolved eager transfer is cleared before the last request settles.\<close>

lemma clip_upload:
  "upload (world accepting_fetch) Video (FileStream clip) None =
     \<lparr>effects =
        [EvGetUploadUrl Video, EvSetTimeout 20000,
         EvPause,
         EvFetch (chunk_request clip ''https://upload.example/session'' (Some AbortSignal) (- 1)
                    (replicate 1000 0)),
         EvSettled (Responded \<lparr>status = 200, body = Some token_payload\<rparr>), EvResume,
         EvPause,
         EvFetch (chunk_request clip ''https://upload.example/session'' (Some AbortSignal) 999
                    (replicate 500 0)),
         EvResolve token_payload, EvClearTimeout,
         EvSettled (Responded \<lparr>status = 200, body = Some (JObj [])\<rparr>), EvResume],
      unhandled = [], outcome = Resolved token_payload\<rparr>"
  by (simp add: upload_def world_def upload_default_delay clip_run)

section \<open>Chunked stream transfer: failures\<close>

text \<open>
  On a stream that ends with \<^verbatim>\<open>'end'\<close>, a response with status 400 or more that arrives
  while the promise is pending ends the transfer: it is the last effect of the run, so
  no further request is issued. The error built at line 146 is thrown inside the
  \<^verbatim>\<open>async\<close> listener, though, so it ends up as an unhandled rejection and the promise
  returned by \<^verbatim>\<open>uploadFromStream\<close> is never settled.
\<close>

lemma uploadFromStream_error_status:
  assumes "rs_end (stream file) = StreamEnd"
    and "EvSettled (Responded res)
             \<in> set (until_settled (effects (uploadFromStream fch file uploadUrl abortController)))"
    and "status res \<ge> 400"
  shows "outcome (uploadFromStream fch file uploadUrl abortController) = Pending \<and>
         unhandled (uploadFromStream fch file uploadUrl abortController) = [thrown_for res] \<and>
         last (effects (uploadFromStream fch file uploadUrl abortController))
           = EvSettled (Responded res)"
proof -
  from assms(1) have "uploadFromStream fch file uploadUrl abortController =
      deliver fch file uploadUrl abortController 0 \<lparr>prevChunk = - 1, uploadData = JNull\<rparr>
        (rs_chunks (stream file))"
    by (simp add: uploadFromStream_def)
  with assms(2,3) show ?thesis by (simp add: deliver_error_status del: deliver.simps)
qed

text \<open>
  Claim C1: if a chunk's response has status 400 or more, no later chunk is requested
  and the upload call rejects with an error carrying that status and the parsed body.
  The code does not do the second part. In the two-chunk scenario against a server
  answering 400, exactly one request is issued and the \<open>MaxError\<close> with status 400 and
  the parsed body is built, but it is thrown where nothing catches it: the returned
  promise stays pending instead of rejecting.
\<close>

theorem uploadFromStream_status_400_stays_pending:
  "uploadFromStream refusing_fetch clip ''https://upload.example/session'' (Some AbortSignal) =
     \<lparr>effects =
        [EvPause,
         EvFetch \<lparr>req_url = ''https://upload.example/session'', req_method = ''POST'',
                  req_body = RawBody (replicate 1000 0),
                  req_headers = [(''Content-Disposition'', ''attachment; filename=\"clip.mp4\"''),
                                 (''Content-Range'', ''bytes 0-999/1500'')],
                  req_signal = Some AbortSignal\<rparr>,
         EvSettled (Responded \<lparr>status = 400, body = Some error_payload\<rparr>)],
      unhandled = [MaxError 400 error_payload],
      outcome = Pending\<rparr>"
  by (simp add: uploadFromStream_def clip_def clip_chunks_def refusing_fetch_def after_fetch_def
      chunk_request_def clip_numerals Let_def)

text \<open>
  On the buffer path the same abort rejects the call, because there the \<^verbatim>\<open>fetch\<close> is
  awaited by \<^verbatim>\<open>uploadFromBuffer\<close> itself; the timer is cleared on the way out.
\<close>

lemma upload_buffer_deadline_rejects:
  "upload (world aborted_fetch) Video (FileBuffer three_bytes) None =
     \<lparr>effects =
        [EvGetUploadUrl Video, EvSetTimeout 20000,
         EvFetch (buffer_request three_bytes ''https://upload.example/session'' (Some AbortSignal)),
         EvSettled (FetchRejected AbortError), EvReject AbortError, EvClearTimeout],
      unhandled = [],
      outcome = Rejected AbortError\<rparr>"
  by (simp add: upload_def world_def upload_default_delay uploadFromBuffer_def
      aborted_fetch_def settling_def Let_def)

text \<open>
  Claim C2: without a timeout from the caller the deadline is 20 000 ms, and when the
  deadline passes before the transfer completes the abort signal fires, the call fails
  with a transport-level error, and no further chunk is sent. On the stream path the
  code does not fail the call. With no timeout given, the timer is armed with 20 000 ms;
  when the abort reaches the request of the first chunk, no further request is issued,
  but the \<open>AbortError\<close> is raised inside the \<^verbatim>\<open>async\<close> listener: the promise returned by
  \<^verbatim>\<open>upload\<close> stays pending, and the \<^verbatim>\<open>finally\<close> block that clears the timer is not
  reached.
\<close>

theorem upload_stream_deadline_stays_pending:
  "upload (world aborted_fetch) Video (FileStream clip) None =
     \<lparr>effects =
        [EvGetUploadUrl Video, EvSetTimeout 20000, EvPause,
         EvFetch \<lparr>req_url = ''https://upload.example/session'', req_method = ''POST'',
                  req_body = RawBody (replicate 1000 0),
                  req_headers = [(''Content-Disposition'', ''attachment; filename=\"clip.mp4\"''),
                                 (''Content-Range'', ''bytes 0-999/1500'')],
                  req_signal = Some AbortSignal\<rparr>,
         EvSettled (FetchRejected AbortError)],
      unhandled = [AbortError],
      outcome = Pending\<rparr>"
  by (simp add: upload_def world_def upload_default_delay uploadFromStream_def clip_def
      clip_chunks_def aborted_fetch_def after_fetch_def chunk_request_def clip_numerals Let_def)


section \<open>Chunked stream transfer: requests and result\<close>

lemma uploadFromStream_opened:
  "\<forall>err. rs_end (stream file) \<noteq> StreamOpenError err \<Longrightarrow>
   uploadFromStream fch file uploadUrl abortController =
     deliver fch file uploadUrl abortController 0 \<lparr>prevChunk = - 1, uploadData = JNull\<rparr>
       (rs_chunks (stream file))"
  by (simp add: uploadFromStream_def split: stream_end.splits)


text \<open>
  Claim C3, as the spec states it: for a stream delivered as chunks \<open>c1..cn\<close> the
  transmitter issues exactly one request per chunk, strictly in order, with header
  \<^verbatim>\<open>Content-Range: bytes <start>-<end>/<contentLength>\<close>, the ranges being
  \<open>0..len(c1)-1\<close>, \<open>len(c1)..len(c1)+len(c2)-1\<close>, and so on: contiguous, not overlapping,
  and summing to \<open>contentLength\<close>.

  The ranges need not sum to \<open>contentLength\<close>. \<open>contentLength\<close> is the size that \<^verbatim>\<open>stat\<close>
  reports for the path of the stream; the helper never compares it with what the
  stream delivers. A stream of the caller's that starts at byte 1497 of the file of
  1500 bytes is normalised to an upload file with \<open>contentLength = 1500\<close>; it delivers
  three bytes, the only request carries \<^verbatim>\<open>bytes 0-2/1500\<close>, and the upload resolves.
\<close>

theorem uploadFromStream_ranges_miss_contentLength:
  "getStreamFromSource (world accepting_fetch) (SrcStream clip_tail)
     = Inr (FileStream clip_tail_file) \<and>
   uploadFromStream accepting_fetch clip_tail_file ''https://upload.example/session''
      (Some AbortSignal) =
     \<lparr>effects =
        [EvPause,
         EvFetch \<lparr>req_url = ''https://upload.example/session'', req_method = ''POST'',
                  req_body = RawBody [1, 2, 3],
                  req_headers = [(''Content-Disposition'', ''attachment; filename=\"clip.mp4\"''),
                                 (''Content-Range'', ''bytes 0-2/1500'')],
                  req_signal = Some AbortSignal\<rparr>,
         EvSettled (Responded \<lparr>status = 200, body = Some token_payload\<rparr>),
         EvResume,
         EvResolve token_payload],
      unhandled = [], outcome = Resolved token_payload\<rparr> \<and>
   rs_chunks (stream clip_tail_file) = [1, 2, 3] # [] \<and>
   contentLength clip_tail_file = 1500 \<and>
   (2::int) - 0 + 1 \<noteq> contentLength clip_tail_file"
proof -
  have norm: "getStreamFromSource (world accepting_fetch) (SrcStream clip_tail)
      = Inr (FileStream clip_tail_file)"
    by (simp add: getStreamFromSource_def world_def clip_tail_def clip_tail_file_def
        basename_examples Let_def)
  have run: "uploadFromStream accepting_fetch clip_tail_file ''https://upload.example/session''
      (Some AbortSignal) =
     \<lparr>effects =
        [EvPause,
         EvFetch \<lparr>req_url = ''https://upload.example/session'', req_method = ''POST'',
                  req_body = RawBody [1, 2, 3],
                  req_headers = [(''Content-Disposition'', ''attachment; filename=\"clip.mp4\"''),
                                 (''Content-Range'', ''bytes 0-2/1500'')],
                  req_signal = Some AbortSignal\<rparr>,
         EvSettled (Responded \<lparr>status = 200, body = Some token_payload\<rparr>),
         EvResume,
         EvResolve token_payload],
      unhandled = [], outcome = Resolved token_payload\<rparr>"
    by (simp add: uploadFromStream_def clip_tail_def clip_tail_file_def accepting_fetch_def
        after_fetch_def chunk_request_def clip_numerals last_event_def on_end_def settling_def
        prepend_def token_payload_def Let_def)
  have rest: "rs_chunks (stream clip_tail_file) = [1, 2, 3] # []"
    "contentLength clip_tail_file = 1500"
    by (simp_all add: clip_tail_def clip_tail_file_def)
  from norm run rest show ?thesis by simp
qed

text \<open>
  Claim C3, amended: for a stream that delivers the chunks \<open>c1..cn\<close> and ends, the
  transmitter issues exactly one request per chunk delivered, strictly in order (no
  request is issued before the one before it has settled), with header
  \<^verbatim>\<open>Content-Range: bytes <start>-<end>/<contentLength>\<close>, the ranges being
  \<open>0..len(c1)-1\<close>, \<open>len(c1)..len(c1)+len(c2)-1\<close>, and so on: contiguous, not overlapping,
  and summing to the number of bytes delivered, while \<open>contentLength\<close> is the size
  reported by \<^verbatim>\<open>stat\<close>.

  As proved, for every stream that ends with \<^verbatim>\<open>'end'\<close>: the number of requests is the
  number of runs of the listener; the first chunk is requested, and chunk \<open>k + 1\<close> is
  requested exactly when chunk \<open>k\<close> was and the listener ran to its end on the reply
  to it, so every chunk is requested unless a listener throws; whenever the promise
  settles every chunk has been requested; request \<open>k\<close> is a POST to the upload URL that
  carries chunk \<open>k\<close>, the file name and the range from \<open>offset chunks k\<close> to
  \<open>offset chunks (k + 1) - 1\<close> over \<open>contentLength\<close>, in decimal, where \<open>offset chunks k\<close> is
  the number of bytes in the chunks before it, so each range begins right after the one
  before it ends; no request is issued while another is in flight, in the run and in
  every state the event loop can reach, where the stream is paused while a request is
  in flight, the run being what every execution of the loop ends with.
\<close>

theorem uploadFromStream_requests_in_order:
  assumes "rs_end (stream file) = StreamEnd"
  shows
  "let r = uploadFromStream fch file uploadUrl abortController;
       chunks = rs_chunks (stream file)
   in deliveries r = length (requests r) \<and>
      length (requests r) \<le> length chunks \<and>
      (chunks \<noteq> [] \<longrightarrow> requests r \<noteq> []) \<and>
      (\<forall>k. Suc k < length chunks \<longrightarrow>
         (Suc k < length (requests r)) =
           (k < length (requests r) \<and>
            passes (\<exists>m<k. payload_reply (fch m (requests r ! m))) (fch k (requests r ! k)))) \<and>
      (outcome r \<noteq> Pending \<longrightarrow> length (requests r) = length chunks) \<and>
      (\<forall>k < length (requests r).
         requests r ! k =
           \<lparr>req_url = uploadUrl, req_method = ''POST'', req_body = RawBody (chunks ! k),
            req_headers =
              [(''Content-Disposition'', ''attachment; filename=\"'' @ fileName file @ ''\"''),
               (''Content-Range'',
                ''bytes '' @ show_int (offset chunks k) @ ''-''
                  @ show_int (offset chunks (Suc k) - 1) @ ''/''
                  @ show_int (contentLength file))],
            req_signal = abortController\<rparr>) \<and>
      (\<forall>i. parse_int (show_int i) = Some i) \<and>
      sequential (effects r) \<and>
      (\<forall>s. (step fch file uploadUrl abortController)\<^sup>*\<^sup>* (start file) s \<longrightarrow>
           length (in_flight s) \<le> 1 \<and> (in_flight s \<noteq> [] \<longrightarrow> \<not> flowing s)) \<and>
      (\<forall>s. (step fch file uploadUrl abortController)\<^sup>*\<^sup>* (start file) s \<and>
           final fch file uploadUrl abortController s \<longrightarrow> seen s = r)"
proof -
  let ?cs = "rs_chunks (stream file)"
  let ?r = "uploadFromStream fch file uploadUrl abortController"
  let ?v = "\<lparr>prevChunk = - 1, uploadData = JNull\<rparr>"
  from assms have "\<forall>err. rs_end (stream file) \<noteq> StreamOpenError err" by simp
  then have r: "?r = deliver fch file uploadUrl abortController 0 ?v ?cs"
    by (rule uploadFromStream_opened)
  have count: "deliveries ?r = length (requests ?r)"
    unfolding r by (rule deliver_deliveries)
  have le: "length (requests ?r) \<le> length ?cs"
    unfolding r by (rule deliver_requests_length)
  have some: "?cs \<noteq> [] \<longrightarrow> requests ?r \<noteq> []"
    unfolding r by (cases ?cs) (simp_all add: deliver_requests_some del: deliver.simps)
  have "next": "\<forall>k. Suc k < length ?cs \<longrightarrow>
      (Suc k < length (requests ?r)) =
        (k < length (requests ?r) \<and>
         passes (\<exists>m<k. payload_reply (fch m (requests ?r ! m))) (fch k (requests ?r ! k)))"
  proof (intro allI impI)
    fix k assume "Suc k < length ?cs"
    from deliver_next_request[OF this, of fch "file" uploadUrl abortController 0 ?v]
    show "(Suc k < length (requests ?r)) =
        (k < length (requests ?r) \<and>
         passes (\<exists>m<k. payload_reply (fch m (requests ?r ! m))) (fch k (requests ?r ! k)))"
      unfolding r by simp
  qed
  have all: "outcome ?r \<noteq> Pending \<longrightarrow> length (requests ?r) = length ?cs"
    unfolding r by (rule impI) (rule deliver_settled_all)
  have nth: "\<forall>k < length (requests ?r).
      requests ?r ! k =
        \<lparr>req_url = uploadUrl, req_method = ''POST'', req_body = RawBody (?cs ! k),
         req_headers =
           [(''Content-Disposition'', ''attachment; filename=\"'' @ fileName file @ ''\"''),
            (''Content-Range'',
             ''bytes '' @ show_int (offset ?cs k) @ ''-''
               @ show_int (offset ?cs (Suc k) - 1) @ ''/''
               @ show_int (contentLength file))],
         req_signal = abortController\<rparr>"
  proof (intro allI impI)
    fix k assume k: "k < length (requests ?r)"
    with le have "k < length ?cs" by simp
    then have e: "- 1 + offset ?cs k + int (length (?cs ! k)) = offset ?cs (Suc k) - 1"
      by (simp add: offset_Suc)
    have s: "- 1 + offset ?cs k + 1 = offset ?cs k" by simp
    from deliver_requests_nth[OF k[unfolded r]]
    have "requests ?r ! k = chunk_request file uploadUrl abortController (- 1 + offset ?cs k) (?cs ! k)"
      unfolding r by simp
    then show "requests ?r ! k =
        \<lparr>req_url = uploadUrl, req_method = ''POST'', req_body = RawBody (?cs ! k),
         req_headers =
           [(''Content-Disposition'', ''attachment; filename=\"'' @ fileName file @ ''\"''),
            (''Content-Range'',
             ''bytes '' @ show_int (offset ?cs k) @ ''-''
               @ show_int (offset ?cs (Suc k) - 1) @ ''/''
               @ show_int (contentLength file))],
         req_signal = abortController\<rparr>"
      unfolding chunk_request_def Let_def e s by simp
  qed
  have dec: "\<forall>i. parse_int (show_int i) = Some i"
    by (simp add: parse_show_int)
  have seq: "sequential (effects ?r)"
    unfolding r by (rule deliver_sequential)
  have paused: "\<forall>s. (step fch file uploadUrl abortController)\<^sup>*\<^sup>* (start file) s \<longrightarrow>
      length (in_flight s) \<le> 1 \<and> (in_flight s \<noteq> [] \<longrightarrow> \<not> flowing s)"
  proof (intro allI impI)
    fix s assume "(step fch file uploadUrl abortController)\<^sup>*\<^sup>* (start file) s"
    from gated_steps[OF this gated_start]
    show "length (in_flight s) \<le> 1 \<and> (in_flight s \<noteq> [] \<longrightarrow> \<not> flowing s)"
      by (simp add: gated_def)
  qed
  have run: "\<forall>s. (step fch file uploadUrl abortController)\<^sup>*\<^sup>* (start file) s \<and>
      final fch file uploadUrl abortController s \<longrightarrow> seen s = ?r"
    using event_loop_ends_in_run by blast
  show ?thesis
    unfolding Let_def by (intro conjI count le some "next" all nth dec seq paused run)
qed


theorem uploadFromStream_requests_in_order_witness:
  "rs_end (stream clip) = StreamEnd \<and>
   rs_chunks (stream clip) \<noteq> [] \<and>
   Suc 0 < length (rs_chunks (stream clip)) \<and>
   passes (\<exists>m<0. payload_reply (accepting_fetch m
        (requests (uploadFromStream accepting_fetch clip ''https://upload.example/session''
           (Some AbortSignal)) ! m)))
     (accepting_fetch 0
        (requests (uploadFromStream accepting_fetch clip ''https://upload.example/session''
           (Some AbortSignal)) ! 0)) \<and>
   outcome (uploadFromStream accepting_fetch clip ''https://upload.example/session''
      (Some AbortSignal)) \<noteq> Pending \<and>
   requests (uploadFromStream accepting_fetch clip ''https://upload.example/session''
      (Some AbortSignal)) =
     [\<lparr>req_url = ''https://upload.example/session'', req_method = ''POST'',
       req_body = RawBody (replicate 1000 0),
       req_headers = [(''Content-Disposition'', ''attachment; filename=\"clip.mp4\"''),
                      (''Content-Range'', ''bytes 0-999/1500'')],
       req_signal = Some AbortSignal\<rparr>,
      \<lparr>req_url = ''https://upload.example/session'', req_method = ''POST'',
       req_body = RawBody (replicate 500 0),
       req_headers = [(''Content-Disposition'', ''attachment; filename=\"clip.mp4\"''),
                      (''Content-Range'', ''bytes 1000-1499/1500'')],
       req_signal = Some AbortSignal\<rparr>] \<and>
   parse_int (show_int 1499) = Some 1499 \<and>
   (step accepting_fetch clip ''https://upload.example/session'' (Some AbortSignal))\<^sup>*\<^sup>*
      (start clip)
      (listener_starts clip ''https://upload.example/session'' (Some AbortSignal) (start clip)
         (replicate 1000 0) [replicate 500 0]) \<and>
   in_flight (listener_starts clip ''https://upload.example/session'' (Some AbortSignal)
      (start clip) (replicate 1000 0) [replicate 500 0]) \<noteq> [] \<and>
   \<not> flowing (listener_starts clip ''https://upload.example/session'' (Some AbortSignal)
      (start clip) (replicate 1000 0) [replicate 500 0]) \<and>
   (\<exists>s. (step accepting_fetch clip ''https://upload.example/session'' (Some AbortSignal))\<^sup>*\<^sup>*
          (start clip) s \<and>
        final accepting_fetch clip ''https://upload.example/session'' (Some AbortSignal) s \<and>
        outcome (seen s) = Resolved token_payload)"
proof -
  let ?u = "''https://upload.example/session''"
  let ?r = "uploadFromStream accepting_fetch clip ?u (Some AbortSignal)"
  let ?s1 = "listener_starts clip ?u (Some AbortSignal) (start clip)
      (replicate 1000 0) [replicate 500 0]"
  let ?q0 = "\<lparr>req_url = ?u, req_method = ''POST'',
       req_body = RawBody (replicate 1000 (0::byte)),
       req_headers = [(''Content-Disposition'', ''attachment; filename=\"clip.mp4\"''),
                      (''Content-Range'', ''bytes 0-999/1500'')],
       req_signal = Some AbortSignal\<rparr>"
  let ?q1 = "\<lparr>req_url = ?u, req_method = ''POST'',
       req_body = RawBody (replicate 500 (0::byte)),
       req_headers = [(''Content-Disposition'', ''attachment; filename=\"clip.mp4\"''),
                      (''Content-Range'', ''bytes 1000-1499/1500'')],
       req_signal = Some AbortSignal\<rparr>"
  have opened: "rs_end (stream clip) = StreamEnd"
    by (simp add: clip_def)
  have chunks: "rs_chunks (stream clip) = clip_chunks" "length clip_chunks = 2"
    "clip_chunks ! 0 = replicate 1000 0" "clip_chunks ! Suc 0 = replicate 500 0"
    "fileName clip = ''clip.mp4''" "contentLength clip = 1500" "clip_chunks \<noteq> []"
    by (simp_all add: clip_def clip_chunks_def)
  have out: "outcome ?r \<noteq> Pending"
    by (simp add: clip_run)
  note T = uploadFromStream_requests_in_order[OF opened, of accepting_fetch ?u "Some AbortSignal",
      unfolded Let_def chunks(1)]
  note T_le = T[THEN conjunct2, THEN conjunct1]
  note T_next = T[THEN conjunct2, THEN conjunct2, THEN conjunct2, THEN conjunct1]
  note T_all = T[THEN conjunct2, THEN conjunct2, THEN conjunct2, THEN conjunct2, THEN conjunct1]
  note T_nth = T[THEN conjunct2, THEN conjunct2, THEN conjunct2, THEN conjunct2, THEN conjunct2,
      THEN conjunct1]
  note T_dec = T[THEN conjunct2, THEN conjunct2, THEN conjunct2, THEN conjunct2, THEN conjunct2,
      THEN conjunct2, THEN conjunct1]
  note T_paused = T[THEN conjunct2, THEN conjunct2, THEN conjunct2, THEN conjunct2,
      THEN conjunct2, THEN conjunct2, THEN conjunct2, THEN conjunct2, THEN conjunct1]
  note T_run = T[THEN conjunct2, THEN conjunct2, THEN conjunct2, THEN conjunct2,
      THEN conjunct2, THEN conjunct2, THEN conjunct2, THEN conjunct2, THEN conjunct2]
  from T_all out have len: "length (requests ?r) = 2"
    by (simp add: chunks)
  from T_nth len have first: "requests ?r ! 0 = ?q0"
    by (simp add: chunks clip_offsets clip_numerals)
  from T_nth len have second: "requests ?r ! Suc 0 = ?q1"
    by (simp add: chunks clip_offsets clip_numerals)
  have reqs: "requests ?r = [?q0, ?q1]"
  proof (rule nth_equalityI)
    show "length (requests ?r) = length [?q0, ?q1]" using len by simp
    fix i assume "i < length (requests ?r)"
    with len have "i = 0 \<or> i = Suc 0" by auto
    with first second show "requests ?r ! i = [?q0, ?q1] ! i" by auto
  qed
  from T_next[rule_format, of 0] len
  have pass: "passes (\<exists>m<0. payload_reply (accepting_fetch m (requests ?r ! m)))
      (accepting_fetch 0 (requests ?r ! 0))"
    by (simp add: chunks)
  from T_dec have dec: "parse_int (show_int 1499) = Some 1499" by blast
  have "step accepting_fetch clip ?u (Some AbortSignal) (start clip) ?s1"
    by (rule step.data_event) (simp_all add: start_def clip_def clip_chunks_def)
  then have reach: "(step accepting_fetch clip ?u (Some AbortSignal))\<^sup>*\<^sup>* (start clip) ?s1"
    by (rule r_into_rtranclp)
  have busy: "in_flight ?s1 \<noteq> []"
    by (simp add: listener_starts_def Let_def)
  from T_paused reach
  have "length (in_flight ?s1) \<le> 1 \<and> (in_flight ?s1 \<noteq> [] \<longrightarrow> \<not> flowing ?s1)"
    by blast
  with busy have paused: "\<not> flowing ?s1" by blast
  from start_execution[of accepting_fetch clip ?u "Some AbortSignal"] obtain s where
    s: "(step accepting_fetch clip ?u (Some AbortSignal))\<^sup>*\<^sup>* (start clip) s"
       "final accepting_fetch clip ?u (Some AbortSignal) s"
    by blast
  with T_run have "seen s = ?r" by blast
  then have "outcome (seen s) = Resolved token_payload"
    by (simp add: clip_run)
  with s have ends: "\<exists>s. (step accepting_fetch clip ?u (Some AbortSignal))\<^sup>*\<^sup>* (start clip) s \<and>
      final accepting_fetch clip ?u (Some AbortSignal) s \<and>
      outcome (seen s) = Resolved token_payload"
    by blast
  have two: "Suc 0 < length (rs_chunks (stream clip))" "rs_chunks (stream clip) \<noteq> []"
    by (simp_all add: chunks)
  from opened two pass out reqs dec reach busy paused ends show ?thesis
    by (intro conjI)
qed




text \<open>
  Claim C7: a chunked stream upload whose stream ends without having delivered any
  chunk fails with the incomplete-upload error (\<^verbatim>\<open>new Error('Failed to upload')\<close>)
  instead of resolving; no request is issued.
\<close>

theorem uploadFromStream_empty_stream:
  assumes "rs_chunks (stream file) = []" and "rs_end (stream file) = StreamEnd"
  shows "uploadFromStream fch file uploadUrl abortController =
           \<lparr>effects = [EvReject (Error ''Failed to upload'')], unhandled = [],
            outcome = Rejected (Error ''Failed to upload'')\<rparr>"
  using assms by (simp add: uploadFromStream_def last_event_def on_end_def settling_def)

theorem uploadFromStream_empty_stream_witness:
  "rs_chunks (stream (clip\<lparr>stream := (stream clip)\<lparr>rs_chunks := []\<rparr>\<rparr>)) = [] \<and>
   rs_end (stream (clip\<lparr>stream := (stream clip)\<lparr>rs_chunks := []\<rparr>\<rparr>)) = StreamEnd \<and>
   outcome (uploadFromStream accepting_fetch (clip\<lparr>stream := (stream clip)\<lparr>rs_chunks := []\<rparr>\<rparr>)
      ''https://upload.example/session'' (Some AbortSignal))
     = Rejected (Error ''Failed to upload'')"
proof -
  let ?f = "clip\<lparr>stream := (stream clip)\<lparr>rs_chunks := []\<rparr>\<rparr>"
  have h1: "rs_chunks (stream ?f) = []" by simp
  have h2: "rs_end (stream ?f) = StreamEnd" by (simp add: clip_def)
  from uploadFromStream_empty_stream[OF h1 h2] h1 h2 show ?thesis by simp
qed

text \<open>
  Claim C9: if every chunk response has a status below 400 and a body that parses to
  a falsy value (\<^verbatim>\<open>null\<close>, \<^verbatim>\<open>0\<close>, \<^verbatim>\<open>false\<close>, the empty string), then at the end of the
  stream the call rejects with \<^verbatim>\<open>'Failed to upload'\<close> instead of resolving with the
  parsed value, although every chunk has been sent.
\<close>

theorem uploadFromStream_falsy_bodies_rejected:
  assumes "\<forall>i q. falsy_reply (fch i q)" and "rs_end (stream file) = StreamEnd"
  shows "outcome (uploadFromStream fch file uploadUrl abortController)
           = Rejected (Error ''Failed to upload'') \<and>
         length (requests (uploadFromStream fch file uploadUrl abortController))
           = length (rs_chunks (stream file))"
proof -
  from assms(2) have "\<forall>err. rs_end (stream file) \<noteq> StreamOpenError err" by simp
  from uploadFromStream_opened[OF this]
  show ?thesis
    using deliver_all_falsy[OF assms(1) _ assms(2),
        of "\<lparr>prevChunk = - 1, uploadData = JNull\<rparr>" uploadUrl abortController 0
          "rs_chunks (stream file)"]
    by simp
qed

theorem uploadFromStream_falsy_bodies_rejected_witness:
  "(\<forall>i q. falsy_reply (null_fetch i q)) \<and> rs_end (stream clip) = StreamEnd \<and>
   outcome (uploadFromStream null_fetch clip ''https://upload.example/session''
      (Some AbortSignal)) = Rejected (Error ''Failed to upload'') \<and>
   length (requests (uploadFromStream null_fetch clip ''https://upload.example/session''
      (Some AbortSignal))) = 2"
proof -
  have h1: "\<forall>i q. falsy_reply (null_fetch i q)"
    by (simp add: falsy_reply_def null_fetch_def)
  have h2: "rs_end (stream clip) = StreamEnd" by (simp add: clip_def)
  from uploadFromStream_falsy_bodies_rejected[OF h1 h2] h1 h2 show ?thesis
    by (simp add: clip_def clip_chunks_def)
qed


section \<open>Buffer transfer\<close>

text \<open>
  Claim C5: a buffer-backed upload issues exactly one POST request, whose body is a
  multipart form with the single field \<^verbatim>\<open>data\<close> carrying the bytes of the buffer and the
  file name, and returns the parsed JSON body of the response whatever its status:
  no status check, no range header, no chunking.
\<close>

theorem uploadFromBuffer_single_post:
  "requests (uploadFromBuffer fch file uploadUrl abortController) =
     [\<lparr>req_url = uploadUrl, req_method = ''POST'',
       req_body = FormBody
         [\<lparr>part_name = ''data'', part_data = buffer file, part_filename = bufferName file\<rparr>],
       req_headers = [], req_signal = abortController\<rparr>] \<and>
   (\<forall>res d. fch 0 (buffer_request file uploadUrl abortController) = Responded res \<and>
            body res = Some d \<longrightarrow>
      outcome (uploadFromBuffer fch file uploadUrl abortController) = Resolved d \<and>
      unhandled (uploadFromBuffer fch file uploadUrl abortController) = [])"
  by (simp add: uploadFromBuffer_def buffer_request_def requests_def requests_settling Let_def)

theorem uploadFromBuffer_single_post_witness:
  "refusing_fetch 0 (buffer_request three_bytes ''https://upload.example/session''
      (Some AbortSignal))
     = Responded \<lparr>status = 400, body = Some error_payload\<rparr> \<and>
   body \<lparr>status = 400, body = Some error_payload\<rparr> = Some error_payload \<and>
   outcome (uploadFromBuffer refusing_fetch three_bytes ''https://upload.example/session''
      (Some AbortSignal))
     = Resolved error_payload \<and>
   requests (uploadFromBuffer refusing_fetch three_bytes ''https://upload.example/session''
      (Some AbortSignal))
     = [\<lparr>req_url = ''https://upload.example/session'', req_method = ''POST'',
         req_body = FormBody [\<lparr>part_name = ''data'', part_data = [1, 2, 3],
                                part_filename = ''0b8e6f0c-5d0a-4c53-9d3e-1f0f5a7c2a11''\<rparr>],
         req_headers = [], req_signal = Some AbortSignal\<rparr>]"
proof -
  have h: "refusing_fetch 0 (buffer_request three_bytes ''https://upload.example/session''
      (Some AbortSignal))
     = Responded \<lparr>status = 400, body = Some error_payload\<rparr>"
    by (simp add: refusing_fetch_def)
  have b: "body \<lparr>status = 400, body = Some error_payload\<rparr> = Some error_payload"
    by simp
  from uploadFromBuffer_single_post[of refusing_fetch three_bytes
      "''https://upload.example/session''" "Some AbortSignal"] h b
  show ?thesis by (simp add: three_bytes_def)
qed

section \<open>Source normalisation\<close>

text \<open>
  Claim C8: for a path naming a regular file of size \<open>S\<close>, normalisation yields a
  stream-backed upload file with \<open>contentLength = S\<close> and the file name equal to the
  final segment of the path (its base name).
\<close>

theorem getStreamFromSource_regular_file:
  assumes "fs_stat e (PathStr p) = Inr stat" and "isFile stat"
  shows "getStreamFromSource e (SrcPath p) =
           Inr (FileStream \<lparr>stream = createReadStream e p, fileName = basename p,
                             contentLength = st_size stat\<rparr>)"
  using assms by (simp add: getStreamFromSource_def Let_def)

theorem getStreamFromSource_regular_file_witness:
  "fs_stat (world accepting_fetch) (PathStr ''/data/clip.mp4'')
     = Inr \<lparr>isFile = True, st_size = 1500\<rparr> \<and>
   isFile \<lparr>isFile = True, st_size = 1500\<rparr> \<and>
   getStreamFromSource (world accepting_fetch) (SrcPath ''/data/clip.mp4'')
     = Inr (FileStream clip)"
proof -
  have h1: "fs_stat (world accepting_fetch) (PathStr ''/data/clip.mp4'')
      = Inr \<lparr>isFile = True, st_size = 1500\<rparr>"
    by (simp add: world_def)
  have h2: "isFile \<lparr>isFile = True, st_size = 1500\<rparr>" by simp
  have s: "createReadStream (world accepting_fetch) ''/data/clip.mp4'' = stream clip"
    by (simp add: createReadStream_def world_def clip_def)
  from getStreamFromSource_regular_file[OF h1 h2] h1 h2 show ?thesis
    by (simp add: s basename_examples clip_def)
qed

text \<open>
  Claim C6: for a path that does not refer to a regular file, such as a directory,
  normalisation fails with the not-a-file error
  (\<^verbatim>\<open>new Error(`Failed to upload ${fileName}. Not a file`)\<close>) before any network
  activity: each of the four entry points rejects with it and makes no network call,
  not even the request for the upload URL.
\<close>

theorem not_a_file_no_network:
  assumes "fs_stat e (PathStr p) = Inr stat" and "\<not> isFile stat"
  shows "let failed = \<lparr>effects = [], unhandled = [],
                        outcome = Rejected
                          (Error (''Failed to upload '' @ basename p @ ''. Not a file''))\<rparr>
         in getStreamFromSource e (SrcPath p)
              = Inl (Error (''Failed to upload '' @ basename p @ ''. Not a file'')) \<and>
            image e (FromSource (SrcPath p)) tmo = failed \<and>
            video e (SrcPath p) tmo = failed \<and>
            file' e (SrcPath p) tmo = failed \<and>
            audio e (SrcPath p) tmo = failed \<and>
            network_calls failed = []"
  using assms
  by (simp add: getStreamFromSource_def image_def video_def file'_def audio_def no_effects_def
      network_calls_def Let_def)

theorem not_a_file_no_network_witness:
  "fs_stat (world accepting_fetch) (PathStr ''/data'') = Inr \<lparr>isFile = False, st_size = 4096\<rparr> \<and>
   \<not> isFile \<lparr>isFile = False, st_size = 4096\<rparr> \<and>
   video (world accepting_fetch) (SrcPath ''/data'') None
     = \<lparr>effects = [], unhandled = [],
        outcome = Rejected (Error ''Failed to upload data. Not a file'')\<rparr> \<and>
   network_calls (video (world accepting_fetch) (SrcPath ''/data'') None) = []"
proof -
  have h1: "fs_stat (world accepting_fetch) (PathStr ''/data'')
      = Inr \<lparr>isFile = False, st_size = 4096\<rparr>"
    by (simp add: world_def)
  have h2: "\<not> isFile \<lparr>isFile = False, st_size = 4096\<rparr>" by simp
  from not_a_file_no_network[OF h1 h2, of None] h1 h2 show ?thesis
    by (simp add: basename_examples Let_def)
qed

section \<open>Upload session\<close>

text \<open>
  Claim C10: an explicit timeout of 0 ms is not used: \<^verbatim>\<open>options?.timeout || DEFAULT_UPLOAD_TIMEOUT\<close>
  treats 0 as absent, so the timer is armed with the default 20 000 ms and the whole
  call behaves as if no timeout had been given.
\<close>

theorem zero_timeout_replaced_by_default:
  "upload_delay (Some \<lparr>timeout = Some 0\<rparr>) = 20000 \<and>
   upload e type file (Some \<lparr>timeout = Some 0\<rparr>) = upload e type file (Some \<lparr>timeout = None\<rparr>) \<and>
   (\<forall>uploadUrl. getUploadUrl e type = Inr uploadUrl \<longrightarrow>
      take 2 (effects (upload e type file (Some \<lparr>timeout = Some 0\<rparr>)))
        = [EvGetUploadUrl type, EvSetTimeout 20000])"
  by (simp add: upload_def upload_delay_def DEFAULT_UPLOAD_TIMEOUT_def Let_def split: sum.splits)

theorem zero_timeout_replaced_by_default_witness:
  "getUploadUrl (world accepting_fetch) Video = Inr ''https://upload.example/session'' \<and>
   take 2 (effects (upload (world accepting_fetch) Video (FileStream clip)
      (Some \<lparr>timeout = Some 0\<rparr>)))
     = [EvGetUploadUrl Video, EvSetTimeout 20000]"
proof -
  have h: "getUploadUrl (world accepting_fetch) Video = Inr ''https://upload.example/session''"
    by (simp add: world_def)
  from zero_timeout_replaced_by_default[of "world accepting_fetch" Video "FileStream clip"] h
  show ?thesis by blast
qed

end
